theory Spec2Isabelle
  imports Main "HOL-Library.Monad_Syntax"
begin

section \<open>Values, messages and status\<close>

text \<open>
  The values a control holds: a scalar for a field, a record for a group, a sequence for an
  array. A record is an association list in the key order of the JavaScript object.
\<close>

datatype jsval =
    VNull
  | VBool bool
  | VNum int
  | VStr string
  | VObj "(string \<times> jsval) list"
  | VArr "jsval list"

text \<open>
  \<^verbatim>\<open>acc[name] = v\<close> on an object: an existing key keeps its place and gets the new value, a
  new key is added last.
\<close>

fun obj_set :: "(string \<times> 'v) list \<Rightarrow> string \<Rightarrow> 'v \<Rightarrow> (string \<times> 'v) list" where
  "obj_set [] k v = [(k, v)]"
| "obj_set ((k', v') # kvs) k v =
     (if k' = k then (k, v) # kvs else (k', v') # obj_set kvs k v)"

text \<open>The object spread \<^verbatim>\<open>{ ...acc, ...r }\<close>.\<close>

definition spread :: "(string \<times> 'v) list \<Rightarrow> (string \<times> 'v) list \<Rightarrow> (string \<times> 'v) list" where
  "spread acc r = fold (\<lambda>(k, v) acc'. obj_set acc' k v) r acc"

text \<open>
  \<^verbatim>\<open>interface Messages { [key: string]: { message: string; ... } }\<close>: a map from a message
  code to its descriptor (here the message text). \<^verbatim>\<open>Messages | null\<close> is
  \<open>Messages option\<close>.
\<close>

type_synonym Messages = "(string \<times> string) list"

text \<open>\<^verbatim>\<open>interface AbstractStatus\<close>, and \<^verbatim>\<open>Partial<AbstractStatus>\<close> (a key may be absent).\<close>

record AbstractStatus =
  valid :: bool
  pending :: bool
  dirty :: bool
  touched :: bool
  disabled :: bool

record PartialStatus =
  p_valid :: "bool option"
  p_pending :: "bool option"
  p_dirty :: "bool option"
  p_touched :: "bool option"
  p_disabled :: "bool option"

definition no_status :: PartialStatus where
  "no_status = \<lparr>p_valid = None, p_pending = None, p_dirty = None, p_touched = None,
     p_disabled = None\<rparr>"

text \<open>\<^verbatim>\<open>{ ...this.status, ...status }\<close> in \<^verbatim>\<open>setStatus\<close>.\<close>

definition merge_status :: "AbstractStatus \<Rightarrow> PartialStatus \<Rightarrow> AbstractStatus" where
  "merge_status st p =
     \<lparr>valid = (case p_valid p of None \<Rightarrow> valid st | Some b \<Rightarrow> b),
      pending = (case p_pending p of None \<Rightarrow> pending st | Some b \<Rightarrow> b),
      dirty = (case p_dirty p of None \<Rightarrow> dirty st | Some b \<Rightarrow> b),
      touched = (case p_touched p of None \<Rightarrow> touched st | Some b \<Rightarrow> b),
      disabled = (case p_disabled p of None \<Rightarrow> disabled st | Some b \<Rightarrow> b)\<rparr>"

section \<open>The registry lookup of the visitor\<close>

text \<open>
  A registry maps a category to an object whose properties are the behaviour functions;
  \<open>None\<close> is JavaScript's \<^verbatim>\<open>undefined\<close> for a category the registry does not have. A
  definition is \<^verbatim>\<open>{ name, params }\<close>.
\<close>

record 'p ExecutableDefinition =
  name :: string
  params :: 'p

text \<open>
  \<^verbatim>\<open>registry[kind][def.name]\<close> is a property read. It finds an own property of the
  category and, when the category has none of that name, the property the category
  inherits through its prototype chain. What is found is a function, a falsy value
  (\<^verbatim>\<open>null\<close>, \<^verbatim>\<open>undefined\<close>, \<^verbatim>\<open>false\<close>, \<^verbatim>\<open>0\<close>, the empty string) or another truthy value: an
  object that is no function, which has no method \<^verbatim>\<open>bind\<close>.
\<close>

datatype 'm property = PFunction 'm | PObject | PFalsy

record 'm jsobject =
  own :: "string \<Rightarrow> 'm property option"
  inherited :: "string \<Rightarrow> 'm property option"

type_synonym 'm registry = "string \<Rightarrow> 'm jsobject option"

definition get_property :: "'m jsobject \<Rightarrow> string \<Rightarrow> 'm property option" where
  "get_property obj n = (case own obj n of Some p \<Rightarrow> Some p | None \<Rightarrow> inherited obj n)"

definition truthy :: "'m property option \<Rightarrow> bool" where
  "truthy v = (case v of None \<Rightarrow> False | Some PFalsy \<Rightarrow> False | Some _ \<Rightarrow> True)"

text \<open>
  The faults: the \<^verbatim>\<open>TypeError\<close> of the engine (calling what is no function), and whatever
  a behaviour function throws itself. A behaviour function is called with the
  configuration, the control and the parameters and returns its source, or throws.
\<close>

datatype fault = TypeError | Thrown

type_synonym ('cfg, 'ctl, 'p, 'v) executable = "'cfg \<Rightarrow> 'ctl \<Rightarrow> 'p \<Rightarrow> fault + 'v"

text \<open>
  \<^verbatim>\<open>const method = (registry[kind] as any)?.[def.name];
  if (method && registry[kind]) { return method.bind(registry[kind]); }
  return null;\<close>

  \<^verbatim>\<open>method.bind\<close> is a \<^verbatim>\<open>TypeError\<close> when \<^verbatim>\<open>method\<close> is truthy and no function.
\<close>

definition getRegistryMethod ::
  "'m registry \<Rightarrow> string \<Rightarrow> 'p ExecutableDefinition \<Rightarrow> fault + 'm option" where
  "getRegistryMethod registry kind def =
     (let method = (case registry kind of
                      None \<Rightarrow> None
                    | Some category \<Rightarrow> get_property category (name def))
      in if truthy method \<and> registry kind \<noteq> None
         then (case method of Some (PFunction f) \<Rightarrow> Inr (Some f) | _ \<Rightarrow> Inl TypeError)
         else Inr None)"

text \<open>\<^verbatim>\<open>Array.prototype.map\<close> with a callback that may throw: the first fault ends it.\<close>

fun map_fault :: "('a \<Rightarrow> fault + 'b) \<Rightarrow> 'a list \<Rightarrow> fault + 'b list" where
  "map_fault f [] = Inr []"
| "map_fault f (x # xs) =
     (case f x of
        Inl e \<Rightarrow> Inl e
      | Inr y \<Rightarrow> (case map_fault f xs of Inl e \<Rightarrow> Inl e | Inr ys \<Rightarrow> Inr (y # ys)))"

text \<open>
  \<^verbatim>\<open>defs.map(def => { const method = getRegistryMethod(registry, kind, def);
                     return method ? { method, def } : null; }).filter(notNullish)\<close>
\<close>

definition getRegistryMethods ::
  "'m registry \<Rightarrow> string \<Rightarrow> 'p ExecutableDefinition list
     \<Rightarrow> fault + ('m \<times> 'p ExecutableDefinition) list" where
  "getRegistryMethods registry kind defs =
     (case map_fault (\<lambda>def. case getRegistryMethod registry kind def of
                               Inl e \<Rightarrow> Inl e
                             | Inr None \<Rightarrow> Inr None
                             | Inr (Some method) \<Rightarrow> Inr (Some (method, def))) defs of
        Inl e \<Rightarrow> Inl e
      | Inr ms \<Rightarrow> Inr (List.map_filter id ms))"

text \<open>
  \<^verbatim>\<open>methods.map(({ method, def }) => method(config, control, def.params))\<close>: the behaviour
  sources that get installed.
\<close>

definition getRegistryValues ::
  "('cfg, 'ctl, 'p, 'v) executable registry \<Rightarrow> string \<Rightarrow> 'cfg \<Rightarrow> 'ctl
     \<Rightarrow> 'p ExecutableDefinition list \<Rightarrow> fault + 'v list" where
  "getRegistryValues registry kind config control defs =
     (case getRegistryMethods registry kind defs of
        Inl e \<Rightarrow> Inl e
      | Inr methods \<Rightarrow> map_fault (\<lambda>(method, def). method config control (params def)) methods)"

text \<open>\<^verbatim>\<open>const method = getRegistryMethod(...); return method ? method(...) : null;\<close>\<close>

definition getRegistryValue ::
  "('cfg, 'ctl, 'p, 'v) executable registry \<Rightarrow> string \<Rightarrow> 'cfg \<Rightarrow> 'ctl
     \<Rightarrow> 'p ExecutableDefinition \<Rightarrow> fault + 'v option" where
  "getRegistryValue registry kind config control def =
     (case getRegistryMethod registry kind def of
        Inl e \<Rightarrow> Inl e
      | Inr None \<Rightarrow> Inr None
      | Inr (Some method) \<Rightarrow> map_sum id Some (method config control (params def)))"

text \<open>
  A category written as an object literal \<^verbatim>\<open>{ name: function, ... }\<close> has the listed
  functions as its own properties and inherits from \<^verbatim>\<open>Object.prototype\<close>: the functions
  \<^verbatim>\<open>constructor\<close>, \<^verbatim>\<open>toString\<close>, \<^verbatim>\<open>hasOwnProperty\<close> and the others, and under \<^verbatim>\<open>__proto__\<close>
  the prototype itself, an object that is no function. \<open>builtin n\<close> is what the call of
  the inherited function \<open>n\<close> does.
\<close>

definition Object_prototype :: "(string \<Rightarrow> 'm) \<Rightarrow> string \<Rightarrow> 'm property option" where
  "Object_prototype builtin n =
     (if n \<in> set [''constructor'', ''hasOwnProperty'', ''isPrototypeOf'',
                   ''propertyIsEnumerable'', ''toLocaleString'', ''toString'', ''valueOf'',
                   ''__defineGetter__'', ''__defineSetter__'', ''__lookupGetter__'',
                   ''__lookupSetter__'']
      then Some (PFunction (builtin n))
      else if n = ''__proto__'' then Some PObject else None)"

definition object_literal :: "(string \<Rightarrow> 'm) \<Rightarrow> (string \<times> 'm) list \<Rightarrow> 'm jsobject" where
  "object_literal builtin entries =
     \<lparr>own = map_of (map (\<lambda>(k, f). (k, PFunction f)) entries),
      inherited = Object_prototype builtin\<rparr>"

section \<open>Controls\<close>

text \<open>
  Controls are objects with identity: a child is shared by reference between the composite
  that owns it and whoever else holds it, and \<^verbatim>\<open>update()\<close> walks the parent
  back-references. The model is a store of control objects, addressed by their position.

  A validator is called with the control and returns a message map or null, now or later
  (a promise or an observable, of which \<^verbatim>\<open>validate()\<close> takes the first value). The
  validators modelled here read the control's current \<^verbatim>\<open>value\<close>; a deferred result is
  delivered by a later event.
\<close>

datatype vresult = Immediate "Messages option" | Deferred

type_synonym Validator = "jsval \<Rightarrow> vresult"

text \<open>
  The three classes: \<^verbatim>\<open>FieldControl\<close> itself (\<open>Leaf\<close>), \<^verbatim>\<open>GroupControl\<close> with its
  named \<^verbatim>\<open>controls\<close> and \<^verbatim>\<open>ArrayControl\<close> with its sequence of \<^verbatim>\<open>controls\<close>.
\<close>

datatype shape = Leaf | Group "(string \<times> nat) list" | Array "nat list"

text \<open>
  The fields of \<^verbatim>\<open>FieldControl\<close>; \<open>val\<close> is the field \<^verbatim>\<open>value\<close>, \<open>initialized\<close> the
  current value of \<^verbatim>\<open>_initialized$\<close>. \<open>validationSub\<close> is the open one-shot subscription
  of the last \<^verbatim>\<open>validate()\<close>: the number of the invocation and, for each validator, the
  first value of its source once it has arrived; \<open>None\<close> when there is no subscription or
  it is closed. \<open>invocations\<close> and \<open>published\<close> are history variables that no operation
  reads: the number of \<^verbatim>\<open>validate()\<close> calls so far, and the results the subscriber callback
  has stored, each with the number of the invocation that published it. The streams
  \<^verbatim>\<open>_value$\<close>, \<^verbatim>\<open>_status$\<close>, \<^verbatim>\<open>_errors$\<close> and the hint, message and disabler pipelines
  only notify outside observers and are left out.
\<close>

record control =
  shape :: shape
  parent :: "nat option"
  val :: jsval
  initialValue :: jsval
  status :: AbstractStatus
  errors :: "Messages option"
  initialized :: bool
  validators :: "Validator list"
  validationSub :: "(nat \<times> Messages option option list) option"
  invocations :: nat
  published :: "(nat \<times> Messages option) list"

type_synonym store = "control list"

text \<open>An item factory builds a new control from a seed value, or fails.\<close>

type_synonym factory = "jsval \<Rightarrow> store \<Rightarrow> (nat \<times> store) option"

text \<open>\<^verbatim>\<open>forEach\<close> over a list, threading the store; a fault stops it.\<close>

fun forEach :: "('a \<Rightarrow> 's \<Rightarrow> 's option) \<Rightarrow> 'a list \<Rightarrow> 's \<Rightarrow> 's option" where
  "forEach f [] s = Some s"
| "forEach f (x # xs) s = (case f x s of None \<Rightarrow> None | Some s' \<Rightarrow> forEach f xs s')"

text \<open>\<^verbatim>\<open>get children()\<close>: none for a field, \<^verbatim>\<open>Object.values(this.controls)\<close> for a group,
  \<^verbatim>\<open>this.controls\<close> for an array.\<close>

definition children :: "control \<Rightarrow> nat list" where
  "children c = (case shape c of Leaf \<Rightarrow> [] | Group cs \<Rightarrow> map snd cs | Array cs \<Rightarrow> cs)"

definition array_controls :: "control \<Rightarrow> nat list" where
  "array_controls c = (case shape c of Array cs \<Rightarrow> cs | _ \<Rightarrow> [])"

text \<open>\<^verbatim>\<open>setParent(parent) { this._parent = parent; }\<close>\<close>

definition setParent :: "store \<Rightarrow> nat \<Rightarrow> nat \<Rightarrow> store" where
  "setParent s a p = s[a := (s ! a)\<lparr>parent := Some p\<rparr>]"

text \<open>\<^verbatim>\<open>registerControl(control) { control.setParent(this); }\<close> of a group or an array
  \<open>a\<close>.\<close>

definition registerControl :: "store \<Rightarrow> nat \<Rightarrow> nat \<Rightarrow> store" where
  "registerControl s a c = setParent s c a"

text \<open>
  The end of the visitor's \<^verbatim>\<open>initItem\<close>, in the second pass:
  \<^verbatim>\<open>if (!control.parent && parent) { control.setParent(parent); }\<close>
\<close>

definition initItem_parent :: "store \<Rightarrow> nat \<Rightarrow> nat option \<Rightarrow> store" where
  "initItem_parent s c p =
     (if parent (s ! c) = None \<and> p \<noteq> None then setParent s c (the p) else s)"

subsection \<open>Value reduction and update\<close>

text \<open>
  \<^verbatim>\<open>reduceControls(controls, disabled)\<close>: over \<^verbatim>\<open>Object.keys(controls)\<close>,
  \<^verbatim>\<open>if (!control.status.disabled || disabled) { acc[name] = control.value; }\<close>
\<close>

definition reduceControls :: "store \<Rightarrow> (string \<times> nat) list \<Rightarrow> bool \<Rightarrow> (string \<times> jsval) list" where
  "reduceControls s controls dis =
     fold (\<lambda>(name, c) acc.
             if \<not> disabled (status (s ! c)) \<or> dis then obj_set acc name (val (s ! c)) else acc)
       controls []"

text \<open>The reducer of \<^verbatim>\<open>FieldControl.update\<close>.\<close>

definition or_status :: "AbstractStatus \<Rightarrow> AbstractStatus \<Rightarrow> AbstractStatus" where
  "or_status acc c =
     \<lparr>valid = (valid acc \<or> valid c),
      pending = (pending acc \<or> pending c),
      dirty = (dirty acc \<or> dirty c),
      touched = (touched acc \<or> touched c),
      disabled = (disabled acc \<or> disabled c)\<rparr>"

text \<open>
  What one \<^verbatim>\<open>update()\<close> of an initialized control writes into the control itself: a group
  first recomputes its value with \<^verbatim>\<open>reduceControls(this.controls, this.status.disabled)\<close>,
  an array with \<^verbatim>\<open>this.controls.map(control => control.value)\<close>; then
  \<^verbatim>\<open>FieldControl.update\<close> stores \<^verbatim>\<open>this.children.reduce(..., this.status)\<close>.
\<close>

definition update_self :: "store \<Rightarrow> nat \<Rightarrow> store" where
  "update_self s a =
     (let c = s ! a;
          s1 = (case shape c of
                  Leaf \<Rightarrow> s
                | Group controls \<Rightarrow>
                    s[a := c\<lparr>val := VObj (reduceControls s controls (disabled (status c)))\<rparr>]
                | Array controls \<Rightarrow> s[a := c\<lparr>val := VArr (map (\<lambda>x. val (s ! x)) controls)\<rparr>])
      in s1[a := (s1 ! a)\<lparr>status :=
              foldl or_status (status (s1 ! a)) (map (\<lambda>x. status (s1 ! x)) (children (s1 ! a)))\<rparr>])"

text \<open>
  \<^verbatim>\<open>update()\<close>: nothing before the gate is open; otherwise recompute, then
  \<^verbatim>\<open>this.parent?.update()\<close>. The recursion follows the parent links, which nothing keeps
  from forming a cycle, so it runs on fuel: \<open>None\<close> is the recursion that never returns.
  A chain without a cycle visits each control of the store at most once.
\<close>

fun updateN :: "nat \<Rightarrow> store \<Rightarrow> nat \<Rightarrow> store option" where
  "updateN 0 s a = None"
| "updateN (Suc n) s a =
     (if \<not> initialized (s ! a) then Some s
      else (case parent (s ! a) of
              None \<Rightarrow> Some (update_self s a)
            | Some p \<Rightarrow> updateN n (update_self s a) p))"

definition update :: "store \<Rightarrow> nat \<Rightarrow> store option" where
  "update s a = updateN (length s) s a"

text \<open>\<^verbatim>\<open>setStatus = status => { this.status = { ...this.status, ...status }; this.update(); }\<close>\<close>

definition setStatus :: "store \<Rightarrow> nat \<Rightarrow> PartialStatus \<Rightarrow> store option" where
  "setStatus s a p = update (s[a := (s ! a)\<lparr>status := merge_status (status (s ! a)) p\<rparr>]) a"

text \<open>\<^verbatim>\<open>FieldControl.setValue\<close>, \<^verbatim>\<open>patchValue\<close> and \<^verbatim>\<open>reset\<close>.\<close>

definition FieldControl_setValue :: "store \<Rightarrow> nat \<Rightarrow> jsval \<Rightarrow> store option" where
  "FieldControl_setValue s a v =
     setStatus (s[a := (s ! a)\<lparr>val := v\<rparr>]) a
       (no_status\<lparr>p_dirty := Some True, p_touched := Some True\<rparr>)"

definition FieldControl_patchValue :: "store \<Rightarrow> nat \<Rightarrow> jsval \<Rightarrow> store option" where
  "FieldControl_patchValue s a v = FieldControl_setValue s a v"

definition FieldControl_reset :: "store \<Rightarrow> nat \<Rightarrow> store option" where
  "FieldControl_reset s a =
     setStatus (s[a := (s ! a)\<lparr>val := initialValue (s ! a)\<rparr>]) a
       (no_status\<lparr>p_dirty := Some False, p_touched := Some False\<rparr>)"

subsection \<open>Validation\<close>

text \<open>
  \<^verbatim>\<open>results.length ? results.reduce((acc, r) => ({ ...acc, ...r }), {}) : null\<close> over the
  first values with the nullish ones filtered out.
\<close>

definition combineErrors :: "Messages option list \<Rightarrow> Messages option" where
  "combineErrors rs =
     (let results = List.map_filter id rs
      in if results = [] then None else Some (foldl spread [] results))"

text \<open>
  The subscriber callback of \<^verbatim>\<open>validate()\<close>:
  \<^verbatim>\<open>errors => { this.errors = errors; this.setStatus({ valid: !!errors }); }\<close>.
  \<^verbatim>\<open>!!errors\<close> is true for every object and false for null.
\<close>

definition publish :: "store \<Rightarrow> nat \<Rightarrow> Messages option \<Rightarrow> store option" where
  "publish s a e =
     setStatus (s[a := (s ! a)\<lparr>errors := e\<rparr>]) a (no_status\<lparr>p_valid := Some (e \<noteq> None)\<rparr>)"

text \<open>
  The pipeline \<^verbatim>\<open>combineLatest([this._initialized$.pipe(filter(Boolean)), sources]).pipe(...,
  first())\<close> emits once, as soon as the gate is open and every source has given its first
  value; \<^verbatim>\<open>first()\<close> then closes the subscription. \<open>validation_fire\<close> is run after each
  event that can make that true.
\<close>

definition validation_fire :: "store \<Rightarrow> nat \<Rightarrow> store option" where
  "validation_fire s a =
     (case validationSub (s ! a) of
        None \<Rightarrow> Some s
      | Some (k, slots) \<Rightarrow>
          if initialized (s ! a) \<and> list_all (\<lambda>x. x \<noteq> None) slots
          then (let e = combineErrors (map the slots)
                in publish (s[a := (s ! a)\<lparr>validationSub := None,
                                  published := published (s ! a) @ [(k, e)]\<rparr>]) a e)
          else Some s)"

text \<open>
  \<^verbatim>\<open>validate()\<close>: every validator is called now; an earlier subscription is unsubscribed
  and replaced by the new one.
\<close>

definition validate :: "store \<Rightarrow> nat \<Rightarrow> store option" where
  "validate s a =
     (let c = s ! a;
          slots = map (\<lambda>v. case v (val c) of Immediate r \<Rightarrow> Some r | Deferred \<Rightarrow> None)
                    (validators c)
      in validation_fire
           (s[a := c\<lparr>validationSub := Some (invocations c, slots),
                     invocations := Suc (invocations c)\<rparr>]) a)"

text \<open>\<^verbatim>\<open>setValidators = validators => { this.validators = validators; this.validate(); }\<close>\<close>

definition setValidators :: "store \<Rightarrow> nat \<Rightarrow> Validator list \<Rightarrow> store option" where
  "setValidators s a vs = validate (s[a := (s ! a)\<lparr>validators := vs\<rparr>]) a"

text \<open>
  The first value of the \<open>i\<close>-th source of invocation \<open>k\<close> arrives (a promise resolves, an
  observable emits). It is ignored when that subscription is no longer the open one, and
  \<^verbatim>\<open>first()\<close> on the source ignores every value after the first.
\<close>

definition deliver :: "store \<Rightarrow> nat \<Rightarrow> nat \<Rightarrow> nat \<Rightarrow> Messages option \<Rightarrow> store option" where
  "deliver s a k i r =
     (case validationSub (s ! a) of
        None \<Rightarrow> Some s
      | Some (k', slots) \<Rightarrow>
          if k' = k \<and> i < length slots \<and> slots ! i = None
          then validation_fire (s[a := (s ! a)\<lparr>validationSub := Some (k', slots[i := Some r])\<rparr>]) a
          else Some s)"

text \<open>
  \<^verbatim>\<open>this._initialized$.next(true)\<close>, the body of \<^verbatim>\<open>FieldControl.fieldReady\<close>,
  \<^verbatim>\<open>GroupControl.groupReady\<close> and \<^verbatim>\<open>ArrayControl.arrayReady\<close>: the gate opens and the
  pending subscription is notified.
\<close>

definition fieldReady :: "store \<Rightarrow> nat \<Rightarrow> store option" where
  "fieldReady s a = validation_fire (s[a := (s ! a)\<lparr>initialized := True\<rparr>]) a"

subsection \<open>Constructors\<close>

definition initial_status :: AbstractStatus where
  "initial_status = \<lparr>valid = True, pending = False, dirty = False, touched = False,
     disabled = False\<rparr>"

text \<open>The state the \<^verbatim>\<open>FieldControl\<close> constructor sets up before it calls
  \<^verbatim>\<open>validate()\<close>.\<close>

definition fresh_control :: "shape \<Rightarrow> jsval \<Rightarrow> Validator list \<Rightarrow> control" where
  "fresh_control sh v vs =
     \<lparr>shape = sh, parent = None, val = v, initialValue = v, status = initial_status,
      errors = None, initialized = False, validators = vs, validationSub = None,
      invocations = 0, published = []\<rparr>"

text \<open>\<^verbatim>\<open>new FieldControl(value, { validators })\<close>: \<^verbatim>\<open>this.validate(); this.fieldReady();\<close>
  end the constructor.\<close>

definition new_FieldControl :: "jsval \<Rightarrow> Validator list \<Rightarrow> store \<Rightarrow> (nat \<times> store) option" where
  "new_FieldControl v vs s =
     (let a = length s in
      do {
        s1 \<leftarrow> validate (s @ [fresh_control Leaf v vs]) a;
        s2 \<leftarrow> fieldReady s1 a;
        Some (a, s2)
      })"

text \<open>
  \<^verbatim>\<open>new GroupControl(controls, opts)\<close>; \<open>dis\<close> is \<^verbatim>\<open>opts.status?.disabled ?? false\<close>. The
  \<^verbatim>\<open>FieldControl\<close> constructor runs first (with \<^verbatim>\<open>fieldReady\<close> overridden to do nothing),
  then the value is reduced again, every child is registered and \<^verbatim>\<open>groupReady()\<close> opens
  the gate.
\<close>

definition new_GroupControl ::
  "(string \<times> nat) list \<Rightarrow> Validator list \<Rightarrow> bool \<Rightarrow> store \<Rightarrow> (nat \<times> store) option" where
  "new_GroupControl controls vs dis s =
     (let a = length s in
      do {
        s1 \<leftarrow> validate
               (s @ [fresh_control (Group controls) (VObj (reduceControls s controls dis)) vs]) a;
        let s2 = s1[a := (s1 ! a)\<lparr>val := VObj (reduceControls s1 controls dis)\<rparr>];
        let s3 = fold (\<lambda>c s'. registerControl s' a c) (children (s2 ! a)) s2;
        s4 \<leftarrow> fieldReady s3 a;
        Some (a, s4)
      })"

text \<open>\<^verbatim>\<open>value.map(v => this.itemFactory(v))\<close>, the factory calls one after the other.\<close>

fun mapFactory :: "factory \<Rightarrow> jsval list \<Rightarrow> store \<Rightarrow> (nat list \<times> store) option" where
  "mapFactory f [] s = Some ([], s)"
| "mapFactory f (v # vs) s =
     (case f v s of
        None \<Rightarrow> None
      | Some (c, s1) \<Rightarrow>
          (case mapFactory f vs s1 of
             None \<Rightarrow> None
           | Some (cs, s2) \<Rightarrow> Some (c # cs, s2)))"

text \<open>\<^verbatim>\<open>new ArrayControl(itemFactory, value, opts)\<close>.\<close>

definition new_ArrayControl ::
  "factory \<Rightarrow> jsval list \<Rightarrow> Validator list \<Rightarrow> store \<Rightarrow> (nat \<times> store) option" where
  "new_ArrayControl itemFactory v vs s =
     (let a = length s in
      do {
        s1 \<leftarrow> validate (s @ [fresh_control (Array []) (VArr v) vs]) a;
        (cs, s2) \<leftarrow> mapFactory itemFactory v s1;
        let s3 = s2[a := (s2 ! a)\<lparr>shape := Array cs\<rparr>];
        let s4 = fold (\<lambda>c s'. registerControl s' a c) (children (s3 ! a)) s3;
        s5 \<leftarrow> fieldReady s4 a;
        Some (a, s5)
      })"

text \<open>
  \<^verbatim>\<open>DefaultVisitor.arrayInit\<close>:
  \<^verbatim>\<open>return new ArrayControl(() => new GroupControl(bundled), value ?? []);\<close>. Every
  item group is built over the same bundled child controls.
\<close>

definition DefaultVisitor_arrayInit ::
  "(string \<times> nat) list \<Rightarrow> jsval list \<Rightarrow> store \<Rightarrow> (nat \<times> store) option" where
  "DefaultVisitor_arrayInit bundled v s =
     new_ArrayControl (\<lambda>seed s'. new_GroupControl bundled [] False s') v [] s"

subsection \<open>ArrayControl\<close>

text \<open>
  \<^verbatim>\<open>push(...items) { this.controls.push(...items);
                     items.map(control => this.registerControl(control)); }\<close>
\<close>

definition ArrayControl_push :: "store \<Rightarrow> nat \<Rightarrow> nat list \<Rightarrow> store" where
  "ArrayControl_push s a items =
     fold (\<lambda>c s'. registerControl s' a c) items
       (s[a := (s ! a)\<lparr>shape := Array (array_controls (s ! a) @ items)\<rparr>])"

text \<open>
  The start position of \<^verbatim>\<open>Array.prototype.splice(index, ...)\<close> on a list of length \<open>n\<close>:
  a negative index counts from the end, and the result is clamped to \<open>0..n\<close>.
\<close>

definition splice_start :: "nat \<Rightarrow> int \<Rightarrow> nat" where
  "splice_start n index = (if index < 0 then nat (max (int n + index) 0) else min (nat index) n)"

text \<open>\<^verbatim>\<open>insert(index, item) { this.controls.splice(index, 0, item);
                        this.registerControl(item); }\<close>\<close>

definition ArrayControl_insert :: "store \<Rightarrow> nat \<Rightarrow> int \<Rightarrow> nat \<Rightarrow> store" where
  "ArrayControl_insert s a index item =
     (let cs = array_controls (s ! a);
          k = splice_start (length cs) index
      in registerControl (s[a := (s ! a)\<lparr>shape := Array (take k cs @ [item] @ drop k cs)\<rparr>]) a item)"

text \<open>\<^verbatim>\<open>removeAt(index) { this.controls.splice(index, 1); }\<close>\<close>

definition ArrayControl_removeAt :: "store \<Rightarrow> nat \<Rightarrow> int \<Rightarrow> store" where
  "ArrayControl_removeAt s a index =
     (let cs = array_controls (s ! a);
          k = splice_start (length cs) index
      in s[a := (s ! a)\<lparr>shape := Array (take k cs @ drop (Suc k) cs)\<rparr>])"

text \<open>\<^verbatim>\<open>clear() { this.controls.splice(0); this.setStatus({ dirty: true, touched: true }); }\<close>\<close>

definition ArrayControl_clear :: "store \<Rightarrow> nat \<Rightarrow> store option" where
  "ArrayControl_clear s a =
     setStatus (s[a := (s ! a)\<lparr>shape := Array []\<rparr>]) a
       (no_status\<lparr>p_dirty := Some True, p_touched := Some True\<rparr>)"

text \<open>
  Modelled from the spec: \<^verbatim>\<open>RAR.range\<close> is \<^verbatim>\<open>range\<close> of the library fp-ts (module
  \<^verbatim>\<open>ReadonlyArray\<close>), which is not among the sources. It creates the integers from
  \<open>start\<close> to \<open>end\<close>, both included, and its result is never empty: with \<open>end < start\<close> it is
  \<open>[start]\<close> (fp-ts since 2.10:
  \<^verbatim>\<open>start <= end ? makeBy(end - start + 1, i => start + i) : [start]\<close>).
\<close>

definition range :: "int \<Rightarrow> int \<Rightarrow> int list" where
  "range start end =
     (if start \<le> end then map (\<lambda>i. start + int i) [0..<nat (end - start + 1)] else [start])"

text \<open>
  \<^verbatim>\<open>this.value[i] ?? null\<close> for the value of an array control, which is an array (its type
  \<^verbatim>\<open>TValue[]\<close>): an index past the end and a null entry both give null. \<open>None\<close> is a
  value that is no array.
\<close>

definition seedAt :: "jsval \<Rightarrow> nat \<Rightarrow> jsval option" where
  "seedAt v i = (case v of VArr vs \<Rightarrow> Some (if i < length vs then vs ! i else VNull) | _ \<Rightarrow> None)"

text \<open>
  \<^verbatim>\<open>RAR.range(0, length - 1).map((_, i) => this.itemFactory(this.value[i] ?? null))\<close>: the
  factory is called for the positions \<open>i, i + 1, ...\<close> of the range, whatever its elements
  are, and \<^verbatim>\<open>this.value\<close> is read at each call.
\<close>

fun fabricate :: "factory \<Rightarrow> nat \<Rightarrow> nat \<Rightarrow> 'x list \<Rightarrow> store \<Rightarrow> (nat list \<times> store) option" where
  "fabricate f a i [] s = Some ([], s)"
| "fabricate f a i (x # xs) s =
     (case seedAt (val (s ! a)) i of
        None \<Rightarrow> None
      | Some seed \<Rightarrow>
          (case f seed s of
             None \<Rightarrow> None
           | Some (c, s1) \<Rightarrow>
               (case fabricate f a (Suc i) xs s1 of
                  None \<Rightarrow> None
                | Some (cs, s2) \<Rightarrow> Some (c # cs, s2))))"

text \<open>
  \<^verbatim>\<open>resize(length) { this.clear(); const controls = RAR.range(0, length - 1).map(...);
                     this.push(...controls); }\<close>, with the item factory \<open>f\<close> of the array.
\<close>

definition ArrayControl_resize :: "factory \<Rightarrow> store \<Rightarrow> nat \<Rightarrow> nat \<Rightarrow> store option" where
  "ArrayControl_resize f s a n =
     do {
       s1 \<leftarrow> ArrayControl_clear s a;
       (cs, s2) \<leftarrow> fabricate f a 0 (range 0 (int n - 1)) s1;
       Some (ArrayControl_push s2 a cs)
     }"

text \<open>\<^verbatim>\<open>at(index) { return this.controls[index]; }\<close>, \<open>None\<close> for \<^verbatim>\<open>undefined\<close>.\<close>

definition ArrayControl_at :: "store \<Rightarrow> nat \<Rightarrow> nat \<Rightarrow> nat option" where
  "ArrayControl_at s a index =
     (let cs = array_controls (s ! a) in if index < length cs then Some (cs ! index) else None)"

subsection \<open>The operations that go down the tree\<close>

text \<open>
  \<^verbatim>\<open>setValue\<close>, dispatched on the class of the control. \<open>F\<close> gives the item factory of each
  array control (the constructor parameter \<^verbatim>\<open>_itemFactory\<close>, never reassigned). The
  recursion follows the \<^verbatim>\<open>controls\<close> of the store, so it runs on fuel.
  \<^item> \<^verbatim>\<open>FieldControl\<close>: \<^verbatim>\<open>this.value = value; this.setStatus({ dirty: true, touched: true })\<close>.
  \<^item> \<^verbatim>\<open>GroupControl\<close>: for every key of the value, \<^verbatim>\<open>const control = this.controls[name];
    if (control) { control.setValue(value[name]); }\<close>. The value is a record (the type
    \<^verbatim>\<open>TValue\<close>); \<^verbatim>\<open>Object.keys\<close> of null faults, and so does every other value here.
  \<^item> \<^verbatim>\<open>ArrayControl\<close>: \<^verbatim>\<open>this.resize(value.length)\<close>, then for every index
    \<^verbatim>\<open>const control = this.at(index); if (control && control instanceof FieldControl) {
    control.setValue(newValue); }\<close>. The value is an array; every other value faults here.
\<close>

fun setValueN :: "(nat \<Rightarrow> factory) \<Rightarrow> nat \<Rightarrow> store \<Rightarrow> nat \<Rightarrow> jsval \<Rightarrow> store option" where
  "setValueN F 0 s a v = None"
| "setValueN F (Suc n) s a v =
     (case shape (s ! a) of
        Leaf \<Rightarrow> FieldControl_setValue s a v
      | Group controls \<Rightarrow>
          (case v of
             VObj kvs \<Rightarrow>
               forEach (\<lambda>(k, x) s'.
                          case map_of controls k of
                            None \<Rightarrow> Some s'
                          | Some c \<Rightarrow> setValueN F n s' c x) kvs s
           | _ \<Rightarrow> None)
      | Array controls \<Rightarrow>
          (case v of
             VArr vs \<Rightarrow>
               (case ArrayControl_resize (F a) s a (length vs) of
                  None \<Rightarrow> None
                | Some s1 \<Rightarrow>
                    forEach (\<lambda>(index, x) s'.
                               case ArrayControl_at s' a index of
                                 None \<Rightarrow> Some s'
                               | Some c \<Rightarrow> setValueN F n s' c x) (enumerate 0 vs) s1)
           | _ \<Rightarrow> None))"

text \<open>
  \<^verbatim>\<open>reset\<close>: a field restores its initial value and clears dirty and touched; a group
  resets every child; an array resizes to \<^verbatim>\<open>this.initialValue.length\<close> and resets every
  control.
\<close>

fun resetN :: "(nat \<Rightarrow> factory) \<Rightarrow> nat \<Rightarrow> store \<Rightarrow> nat \<Rightarrow> store option" where
  "resetN F 0 s a = None"
| "resetN F (Suc n) s a =
     (case shape (s ! a) of
        Leaf \<Rightarrow> FieldControl_reset s a
      | Group controls \<Rightarrow> forEach (\<lambda>c s'. resetN F n s' c) (map snd controls) s
      | Array controls \<Rightarrow>
          (case initialValue (s ! a) of
             VArr vs \<Rightarrow>
               (case ArrayControl_resize (F a) s a (length vs) of
                  None \<Rightarrow> None
                | Some s1 \<Rightarrow> forEach (\<lambda>c s'. resetN F n s' c) (array_controls (s1 ! a)) s1)
           | _ \<Rightarrow> None))"

text \<open>
  \<^verbatim>\<open>getRawValue\<close> of a group and of an array:
  \<^verbatim>\<open>control instanceof FieldControl ? control.value : control.getRawValue()\<close> for each child.
  \<^verbatim>\<open>GroupControl\<close> and \<^verbatim>\<open>ArrayControl\<close> extend \<^verbatim>\<open>FieldControl\<close>, so the test holds for
  every control of the store. \<^verbatim>\<open>FieldControl\<close> itself has no \<^verbatim>\<open>getRawValue\<close>.
\<close>

definition instanceof_FieldControl :: "control \<Rightarrow> bool" where
  "instanceof_FieldControl c = (case shape c of Leaf \<Rightarrow> True | Group _ \<Rightarrow> True | Array _ \<Rightarrow> True)"

fun getRawValueN :: "nat \<Rightarrow> store \<Rightarrow> nat \<Rightarrow> jsval option" where
  "getRawValueN 0 s a = None"
| "getRawValueN (Suc n) s a =
     (case shape (s ! a) of
        Leaf \<Rightarrow> None
      | Group controls \<Rightarrow>
          map_option VObj
            (forEach (\<lambda>(k, c) acc.
                        case (if instanceof_FieldControl (s ! c) then Some (val (s ! c))
                              else getRawValueN n s c) of
                          None \<Rightarrow> None
                        | Some v \<Rightarrow> Some (obj_set acc k v)) controls [])
      | Array controls \<Rightarrow>
          map_option VArr
            (forEach (\<lambda>c acc.
                        case (if instanceof_FieldControl (s ! c) then Some (val (s ! c))
                              else getRawValueN n s c) of
                          None \<Rightarrow> None
                        | Some v \<Rightarrow> Some (acc @ [v])) controls []))"

subsection \<open>The life of a control as a sequence of events\<close>

text \<open>
  What can happen to the validation of a control \<open>a\<close>, one event after the other:
  \<^verbatim>\<open>validate()\<close>, \<^verbatim>\<open>setValidators(vs)\<close>, the opening of the gate, the arrival of the first
  value of a deferred source, and \<^verbatim>\<open>setValue(v)\<close> of a field. The constructor of a field
  is the events \<open>Validate\<close>, \<open>Ready\<close> on the fresh control; the constructors of a group and
  of an array open the gate later. A fault of an event ends the run.

  Two more events give the control a parent. \<open>NewGroup controls vs dis\<close> is
  \<^verbatim>\<open>new GroupControl(controls, { validators: vs, status: { disabled: dis } })\<close> over controls
  that exist, which registers each of them with the new group; \<open>PushInto arr\<close> is
  \<^verbatim>\<open>arr.push(a)\<close> on an existing array \<open>arr\<close>. An event that names a control the store
  does not have, or pushes into what is no array, cannot happen, and ends the run.
\<close>

datatype event =
    Validate
  | SetValidators "Validator list"
  | Ready
  | Deliver nat nat "Messages option"
  | SetValue jsval
  | NewGroup "(string \<times> nat) list" "Validator list" bool
  | PushInto nat

fun event_step :: "nat \<Rightarrow> event \<Rightarrow> store \<Rightarrow> store option" where
  "event_step a Validate s = validate s a"
| "event_step a (SetValidators vs) s = setValidators s a vs"
| "event_step a Ready s = fieldReady s a"
| "event_step a (Deliver k i r) s = deliver s a k i r"
| "event_step a (SetValue v) s = FieldControl_setValue s a v"
| "event_step a (NewGroup controls vs dis) s =
     (if list_all (\<lambda>c. c < length s) (map snd controls)
      then map_option snd (new_GroupControl controls vs dis s) else None)"
| "event_step a (PushInto arr) s =
     (if arr < length s
      then (case shape (s ! arr) of
              Array cs \<Rightarrow> Some (ArrayControl_push s arr [a])
            | _ \<Rightarrow> None)
      else None)"

definition run :: "nat \<Rightarrow> event list \<Rightarrow> store \<Rightarrow> store option" where
  "run a evs s = forEach (event_step a) evs s"

text \<open>
  What holds of a control at every moment: nothing is published while the gate is closed;
  \<open>errors\<close> is null until the first publication and the last published result after it;
  no invocation has published twice; only invocations that took place have published; and
  the open subscription, if there is one, is that of the last invocation, which has not
  published yet.
\<close>

definition validation_inv :: "control \<Rightarrow> bool" where
  "validation_inv c =
     ((if initialized c then True else published c = [])
      \<and> errors c = (if published c = [] then None else snd (last (published c)))
      \<and> distinct (map fst (published c))
      \<and> list_all (\<lambda>p. fst p < invocations c) (published c)
      \<and> (case validationSub c of
            None \<Rightarrow> True
          | Some sub \<Rightarrow>
              Suc (fst sub) = invocations c \<and> list_all (\<lambda>p. fst p \<noteq> fst sub) (published c)))"

subsection \<open>Well-formed parent chains\<close>

text \<open>
  \<open>chain_ends n s a\<close>: the calls \<^verbatim>\<open>update()\<close> makes from \<open>a\<close> upwards end within \<open>n\<close>
  calls, at a control whose gate is closed or that has no parent. With \<open>n\<close> the size of
  the store this says that the parent links above \<open>a\<close> form no cycle. \<open>ancestors n s a\<close>
  are the controls those calls reach after \<open>a\<close>.
\<close>

fun chain_ends :: "nat \<Rightarrow> store \<Rightarrow> nat \<Rightarrow> bool" where
  "chain_ends 0 s a = False"
| "chain_ends (Suc n) s a =
     (if \<not> initialized (s ! a) then True
      else (case parent (s ! a) of None \<Rightarrow> True | Some p \<Rightarrow> chain_ends n s p))"

fun ancestors :: "nat \<Rightarrow> store \<Rightarrow> nat \<Rightarrow> nat list" where
  "ancestors 0 s a = []"
| "ancestors (Suc n) s a =
     (if \<not> initialized (s ! a) then []
      else (case parent (s ! a) of None \<Rightarrow> [] | Some p \<Rightarrow> p # ancestors n s p))"

section \<open>Examples\<close>

text \<open>A validator that asks for a non-empty value.\<close>

definition required :: Validator where
  "required v =
     Immediate (if v = VStr [] \<or> v = VNull then Some [(''required'', ''Required'')] else None)"

text \<open>A field built with the value \<open>a\<close> and then set to \<open>b\<close>.\<close>

definition ex_edited_field :: store where
  "ex_edited_field =
     (case new_FieldControl (VStr ''a'') [required] [] of
        None \<Rightarrow> []
      | Some (f, s) \<Rightarrow> (case FieldControl_setValue s f (VStr ''b'') of None \<Rightarrow> [] | Some s' \<Rightarrow> s'))"

text \<open>Two fields \<open>x\<close> and \<open>y\<close>, the second one disabled by \<^verbatim>\<open>setStatus({ disabled: true })\<close>,
  and the group \<^verbatim>\<open>new GroupControl({ x, y })\<close> over them.\<close>

definition ex_two_fields :: store where
  "ex_two_fields =
     (case new_FieldControl (VNum 1) [] [] of
        None \<Rightarrow> []
      | Some (x, s1) \<Rightarrow>
          (case new_FieldControl (VNum 2) [] s1 of
             None \<Rightarrow> []
           | Some (y, s2) \<Rightarrow>
               (case setStatus s2 y (no_status\<lparr>p_disabled := Some True\<rparr>) of
                  None \<Rightarrow> []
                | Some s3 \<Rightarrow> s3)))"

definition ex_group :: store where
  "ex_group =
     (case new_GroupControl [(''x'', 0), (''y'', 1)] [] False ex_two_fields of
        None \<Rightarrow> []
      | Some (g, s) \<Rightarrow> s)"

text \<open>
  An item factory: \<^verbatim>\<open>seed => new GroupControl({ name: new FieldControl(seed?.name ?? null,
  { validators: [required] }) })\<close>.
\<close>

definition ex_itemFactory :: factory where
  "ex_itemFactory seed s =
     (case new_FieldControl
             (case seed of
                VObj kvs \<Rightarrow> (case map_of kvs ''name'' of None \<Rightarrow> VNull | Some x \<Rightarrow> x)
              | _ \<Rightarrow> VNull) [required] s of
        None \<Rightarrow> None
      | Some (f, s1) \<Rightarrow> new_GroupControl [(''name'', f)] [] False s1)"

text \<open>The edited field (control 0), a group over it (control 1), an array built empty
  (control 2), and the group pushed into the array.\<close>

definition ex_dirty_group :: store where
  "ex_dirty_group =
     (case new_GroupControl [(''name'', 0)] [] False ex_edited_field of
        None \<Rightarrow> [] | Some (g, s) \<Rightarrow> s)"

definition ex_empty_array :: store where
  "ex_empty_array =
     (case new_ArrayControl ex_itemFactory [] [] ex_dirty_group of
        None \<Rightarrow> [] | Some (a, s) \<Rightarrow> s)"

definition ex_pushed :: store where
  "ex_pushed = ArrayControl_push ex_empty_array 2 [1]"

text \<open>An array (control 0) built from one seed, with its item group (control 2) over the
  field (control 1); the field set to \<open>B\<close>; then the item removed.\<close>

definition ex_array_A :: store where
  "ex_array_A =
     (case new_ArrayControl ex_itemFactory [VObj [(''name'', VStr ''A'')]] [] [] of
        None \<Rightarrow> [] | Some (a, s) \<Rightarrow> s)"

definition ex_array_A_edited :: store where
  "ex_array_A_edited =
     (case FieldControl_setValue ex_array_A 1 (VStr ''B'') of None \<Rightarrow> [] | Some s \<Rightarrow> s)"

definition ex_removed :: store where
  "ex_removed = ArrayControl_removeAt ex_array_A_edited 0 0"

text \<open>A second group built over the fields of the first one.\<close>

definition ex_regrouped :: store where
  "ex_regrouped =
     (case new_GroupControl [(''x'', 0), (''y'', 1)] [] False ex_group of
        None \<Rightarrow> [] | Some (g, s) \<Rightarrow> s)"

text \<open>The default visitor's array over the two fields, built with a value of two
  entries: the array is control 2, its item groups are controls 3 and 4.\<close>

definition ex_visited :: store where
  "ex_visited =
     (case DefaultVisitor_arrayInit [(''x'', 0), (''y'', 1)] [VNull, VNull] ex_two_fields of
        None \<Rightarrow> [] | Some (a, s) \<Rightarrow> s)"

text \<open>A second array (control 3) beside the one of \<open>ex_array_A\<close>, and the item group of
  the first array pushed into the second.\<close>

definition ex_two_arrays :: store where
  "ex_two_arrays =
     (case new_ArrayControl ex_itemFactory [] [] ex_array_A of
        None \<Rightarrow> [] | Some (a, s) \<Rightarrow> s)"

definition ex_moved :: store where
  "ex_moved = ArrayControl_push ex_two_arrays 3 [2]"

text \<open>An array (control 0) built from two seeds: its items are the groups 2 and 4 over
  the fields 1 and 3. \<open>ex_resized\<close> is that array after \<^verbatim>\<open>resize(1)\<close>, \<open>ex_reset\<close> after
  \<^verbatim>\<open>reset()\<close>.\<close>

definition ex_array_AB :: store where
  "ex_array_AB =
     (case new_ArrayControl ex_itemFactory
             [VObj [(''name'', VStr ''A'')], VObj [(''name'', VStr ''B'')]] [] [] of
        None \<Rightarrow> [] | Some (a, s) \<Rightarrow> s)"

definition ex_resized :: store where
  "ex_resized =
     (case ArrayControl_resize ex_itemFactory ex_array_AB 0 1 of None \<Rightarrow> [] | Some s \<Rightarrow> s)"

definition ex_reset :: store where
  "ex_reset =
     (case resetN (\<lambda>a. ex_itemFactory) 3 ex_array_AB 0 of None \<Rightarrow> [] | Some s \<Rightarrow> s)"

text \<open>
  A field \<open>x\<close> (control 0) that is disabled, the group \<open>g\<close> over it (control 1) and the
  root group over \<open>g\<close> (control 2):
  \<^verbatim>\<open>x = new FieldControl(1); x.setStatus({ disabled: true });
  g = new GroupControl({ x }); root = new GroupControl({ g });\<close>
\<close>

definition ex_nested :: store where
  "ex_nested =
     (case new_FieldControl (VNum 1) [] [] of
        None \<Rightarrow> []
      | Some (x, s1) \<Rightarrow>
          (case setStatus s1 x (no_status\<lparr>p_disabled := Some True\<rparr>) of
             None \<Rightarrow> []
           | Some s2 \<Rightarrow>
               (case new_GroupControl [(''x'', x)] [] False s2 of
                  None \<Rightarrow> []
                | Some (g, s3) \<Rightarrow>
                    (case new_GroupControl [(''g'', g)] [] False s3 of
                       None \<Rightarrow> []
                     | Some (r, s4) \<Rightarrow> s4))))"

text \<open>\<^verbatim>\<open>new FieldControl("", { validators: [required] })\<close> and
  \<^verbatim>\<open>new FieldControl("x")\<close>.\<close>

definition ex_required_empty :: store where
  "ex_required_empty =
     (case new_FieldControl (VStr []) [required] [] of None \<Rightarrow> [] | Some (f, s) \<Rightarrow> s)"

definition ex_plain :: store where
  "ex_plain = (case new_FieldControl (VStr ''x'') [] [] of None \<Rightarrow> [] | Some (f, s) \<Rightarrow> s)"

text \<open>A validator whose result comes later (a promise).\<close>

definition ex_async :: Validator where
  "ex_async v = Deferred"

text \<open>
  A field with the required validator: built with an empty value, set to \<open>x\<close> and given
  its validators again.
\<close>

definition ex_revalidated :: store where
  "ex_revalidated =
     (case run 0 [Validate, Ready, SetValue (VStr ''x''), SetValidators [required]]
             [fresh_control Leaf (VStr []) [required]] of
        None \<Rightarrow> [] | Some s \<Rightarrow> s)"

text \<open>
  A field with the deferred validator: after its construction (\<open>ex_pending\<close>); and after
  \<^verbatim>\<open>setValidators\<close> with the same list, the arrival of the result of the first invocation
  and then of the second (\<open>ex_superseded\<close>).
\<close>

definition ex_pending :: store where
  "ex_pending =
     (case run 0 [Validate, Ready] [fresh_control Leaf (VStr []) [ex_async]] of
        None \<Rightarrow> [] | Some s \<Rightarrow> s)"

definition ex_superseded :: store where
  "ex_superseded =
     (case run 0 [SetValidators [ex_async],
                  Deliver 0 0 (Some [(''late'', ''Late'')]),
                  Deliver 1 0 None] ex_pending of
        None \<Rightarrow> [] | Some s \<Rightarrow> s)"

text \<open>
  A control with the deferred validator whose gate is still closed after \<^verbatim>\<open>validate()\<close>
  (\<open>ex_unready\<close>); the result arrives (\<open>ex_early\<close>); then the gate opens (\<open>ex_opened\<close>).
\<close>

definition ex_unready :: store where
  "ex_unready =
     (case run 0 [Validate] [fresh_control Leaf (VStr []) [ex_async]] of
        None \<Rightarrow> [] | Some s \<Rightarrow> s)"

definition ex_early :: store where
  "ex_early =
     (case run 0 [Deliver 0 0 (Some [(''taken'', ''Taken'')])] ex_unready of
        None \<Rightarrow> [] | Some s \<Rightarrow> s)"

definition ex_opened :: store where
  "ex_opened = (case run 0 [Ready] ex_early of None \<Rightarrow> [] | Some s \<Rightarrow> s)"

text \<open>
  A field with the deferred validator that is put into a group (control 1) and given its
  validators again (\<open>ex_in_group\<close>); then the result of that second invocation arrives
  (\<open>ex_answered\<close>).
\<close>

definition ex_in_group :: store where
  "ex_in_group =
     (case run 0 [Validate, Ready, NewGroup [(''name'', 0)] [] False, SetValidators [ex_async]]
             [fresh_control Leaf (VStr []) [ex_async]] of
        None \<Rightarrow> [] | Some s \<Rightarrow> s)"

definition ex_answered :: store where
  "ex_answered =
     (case run 0 [Deliver 1 0 (Some [(''taken'', ''Taken'')])] ex_in_group of
        None \<Rightarrow> [] | Some s \<Rightarrow> s)"

text \<open>
  A registry with the one category \<^verbatim>\<open>validators: { required }\<close>, written as an object
  literal. The sources are named by strings. The inherited functions return something
  when they are called, except \<^verbatim>\<open>__defineGetter__\<close> and \<^verbatim>\<open>__defineSetter__\<close>, which
  throw a \<^verbatim>\<open>TypeError\<close> because their second argument, the control, is no function.
\<close>

definition ex_builtin :: "string \<Rightarrow> (unit, unit, unit, string) executable" where
  "ex_builtin n config control p =
     (if n = ''__defineGetter__'' \<or> n = ''__defineSetter__'' then Inl TypeError
      else Inr (''what Object.prototype.'' @ n @ '' returns''))"

definition ex_validators :: "(unit, unit, unit, string) executable jsobject" where
  "ex_validators =
     object_literal ex_builtin [(''required'', \<lambda>config control p. Inr ''required'')]"

definition ex_registry :: "(unit, unit, unit, string) executable registry" where
  "ex_registry kind = (if kind = ''validators'' then Some ex_validators else None)"

section \<open>Evaluating the examples\<close>

lemmas eval_defs =
  new_FieldControl_def new_GroupControl_def new_ArrayControl_def validate_def
  validation_fire_def publish_def setStatus_def update_def update_self_def fieldReady_def
  fresh_control_def combineErrors_def spread_def merge_status_def no_status_def
  initial_status_def children_def or_status_def reduceControls_def registerControl_def
  setParent_def FieldControl_setValue_def FieldControl_reset_def required_def Let_def

lemmas ex_defs =
  ex_itemFactory_def ArrayControl_push_def ArrayControl_removeAt_def ArrayControl_clear_def
  ArrayControl_resize_def ArrayControl_insert_def range_def seedAt_def array_controls_def
  splice_start_def instanceof_FieldControl_def ArrayControl_at_def
  DefaultVisitor_arrayInit_def run_def setValidators_def deliver_def ex_async_def

lemma ex_two_fields_eq:
  "ex_two_fields =
     [\<lparr>shape = Leaf, parent = None, val = VNum 1, initialValue = VNum 1,
       status = \<lparr>valid = False, pending = False, dirty = False, touched = False,
                 disabled = False\<rparr>,
       errors = None, initialized = True, validators = [], validationSub = None,
       invocations = 1, published = [(0, None)]\<rparr>,
      \<lparr>shape = Leaf, parent = None, val = VNum 2, initialValue = VNum 2,
       status = \<lparr>valid = False, pending = False, dirty = False, touched = False,
                 disabled = True\<rparr>,
       errors = None, initialized = True, validators = [], validationSub = None,
       invocations = 1, published = [(0, None)]\<rparr>]"
  by (simp add: ex_two_fields_def eval_defs)

lemma ex_edited_field_eq:
  "ex_edited_field =
     [\<lparr>shape = Leaf, parent = None, val = VStr ''b'', initialValue = VStr ''a'',
       status = \<lparr>valid = False, pending = False, dirty = True, touched = True,
                 disabled = False\<rparr>,
       errors = None, initialized = True, validators = [required], validationSub = None,
       invocations = 1, published = [(0, None)]\<rparr>]"
  by (simp add: ex_edited_field_def eval_defs)

section \<open>Registry lookup: what a name resolves to\<close>

lemma getRegistryMethod_eq:
  "getRegistryMethod registry kind d =
     (case registry kind of
        None \<Rightarrow> Inr None
      | Some category \<Rightarrow>
          (case get_property category (name d) of
             None \<Rightarrow> Inr None
           | Some PFalsy \<Rightarrow> Inr None
           | Some PObject \<Rightarrow> Inl TypeError
           | Some (PFunction f) \<Rightarrow> Inr (Some f)))"
  by (simp add: getRegistryMethod_def truthy_def Let_def split: option.splits property.splits)

lemma getRegistryMethod_fault:
  "getRegistryMethod registry kind d = Inl e \<Longrightarrow> e = TypeError"
  by (simp add: getRegistryMethod_eq split: option.splits property.splits)

lemma getRegistryMethods_Nil: "getRegistryMethods registry kind [] = Inr []"
  by (simp add: getRegistryMethods_def map_filter_simps)

lemma getRegistryMethods_Cons:
  "getRegistryMethods registry kind (d # ds) =
     (case getRegistryMethod registry kind d of
        Inl e \<Rightarrow> Inl e
      | Inr method \<Rightarrow>
          (case getRegistryMethods registry kind ds of
             Inl e \<Rightarrow> Inl e
           | Inr ms \<Rightarrow> Inr ((case method of None \<Rightarrow> [] | Some m \<Rightarrow> [(m, d)]) @ ms)))"
  by (simp add: getRegistryMethods_def map_filter_simps split: sum.splits option.splits)

lemma concat_map_Nil: "concat (map (\<lambda>d. []) xs) = []"
  by (induction xs) simp_all

lemma getRegistryMethods_ok:
  "list_all (\<lambda>d. getRegistryMethod registry kind d \<noteq> Inl TypeError) defs \<Longrightarrow>
   getRegistryMethods registry kind defs =
     Inr (concat (map (\<lambda>d. case getRegistryMethod registry kind d of
                               Inr (Some m) \<Rightarrow> [(m, d)]
                             | _ \<Rightarrow> []) defs))"
proof (induction defs)
  case Nil
  show ?case by (simp add: getRegistryMethods_Nil)
next
  case (Cons d ds)
  then show ?case
    by (auto simp: getRegistryMethods_Cons dest: getRegistryMethod_fault
        split: sum.splits option.splits)
qed

lemma getRegistryMethods_fault:
  "\<not> list_all (\<lambda>d. getRegistryMethod registry kind d \<noteq> Inl TypeError) defs \<Longrightarrow>
   getRegistryMethods registry kind defs = Inl TypeError"
proof (induction defs)
  case Nil
  then show ?case by simp
next
  case (Cons d ds)
  show ?case
  proof (cases "getRegistryMethod registry kind d")
    case (Inl e)
    with getRegistryMethod_fault[OF Inl] show ?thesis
      by (simp add: getRegistryMethods_Cons)
  next
    case (Inr m)
    with Cons show ?thesis
      by (simp add: getRegistryMethods_Cons)
  qed
qed

text \<open>
  C7, as the code has it. The lookup of a definition reads a property of the category,
  own or inherited. It gives the absent marker, and no fault, when the category is
  missing from the registry, when the category has no property of that name, neither
  own nor inherited, and when the property is falsy; it gives the function when the
  property is a function; and it is a \<^verbatim>\<open>TypeError\<close> when the property is an object that
  is no function. When no lookup is a fault the resolved list keeps, in order, exactly
  the definitions whose lookup gives a function, and the installed sources are what the
  calls of those functions with config, control and params return, the first throw
  ending them; when some lookup is a fault, so is the whole resolution, before any
  function is called.
\<close>

theorem registry_lookup_reads_properties:
  "getRegistryMethod registry kind d =
     (case registry kind of
        None \<Rightarrow> Inr None
      | Some category \<Rightarrow>
          (case get_property category (name d) of
             None \<Rightarrow> Inr None
           | Some PFalsy \<Rightarrow> Inr None
           | Some PObject \<Rightarrow> Inl TypeError
           | Some (PFunction f) \<Rightarrow> Inr (Some f)))
   \<and> (registry kind = None \<longrightarrow>
        getRegistryMethod registry kind d = Inr None
        \<and> getRegistryValues registry kind config control defs = Inr [])
   \<and> (registry kind = Some category \<and> own category (name d) = None
        \<and> inherited category (name d) = None
       \<longrightarrow> getRegistryMethod registry kind d = Inr None)
   \<and> (list_all (\<lambda>d. getRegistryMethod registry kind d \<noteq> Inl TypeError) defs
       \<longrightarrow> getRegistryMethods registry kind defs =
             Inr (concat (map (\<lambda>d. case getRegistryMethod registry kind d of
                                       Inr (Some m) \<Rightarrow> [(m, d)]
                                     | _ \<Rightarrow> []) defs))
           \<and> getRegistryValues registry kind config control defs =
               map_fault (\<lambda>(m, d). m config control (params d))
                 (concat (map (\<lambda>d. case getRegistryMethod registry kind d of
                                       Inr (Some m) \<Rightarrow> [(m, d)]
                                     | _ \<Rightarrow> []) defs)))
   \<and> (\<not> list_all (\<lambda>d. getRegistryMethod registry kind d \<noteq> Inl TypeError) defs
       \<longrightarrow> getRegistryValues registry kind config control defs = Inl TypeError)"
proof -
  have absent: "registry kind = None \<longrightarrow>
        getRegistryMethod registry kind d = Inr None
        \<and> getRegistryValues registry kind config control defs = Inr []"
  proof
    assume none: "registry kind = None"
    have "list_all (\<lambda>d. getRegistryMethod registry kind d \<noteq> Inl TypeError) defs"
      by (simp add: list_all_iff getRegistryMethod_eq none)
    then
    show "getRegistryMethod registry kind d = Inr None
        \<and> getRegistryValues registry kind config control defs = Inr []"
      using getRegistryMethods_ok[of registry kind defs]
      by (simp add: getRegistryValues_def getRegistryMethod_eq none concat_map_Nil)
  qed
  have own_only: "registry kind = Some category \<and> own category (name d) = None
        \<and> inherited category (name d) = None
       \<longrightarrow> getRegistryMethod registry kind d = Inr None"
    by (simp add: getRegistryMethod_eq get_property_def)
  have ok: "list_all (\<lambda>d. getRegistryMethod registry kind d \<noteq> Inl TypeError) defs
       \<longrightarrow> getRegistryMethods registry kind defs =
             Inr (concat (map (\<lambda>d. case getRegistryMethod registry kind d of
                                       Inr (Some m) \<Rightarrow> [(m, d)]
                                     | _ \<Rightarrow> []) defs))
           \<and> getRegistryValues registry kind config control defs =
               map_fault (\<lambda>(m, d). m config control (params d))
                 (concat (map (\<lambda>d. case getRegistryMethod registry kind d of
                                       Inr (Some m) \<Rightarrow> [(m, d)]
                                     | _ \<Rightarrow> []) defs))"
    using getRegistryMethods_ok[of registry kind defs]
    by (simp add: getRegistryValues_def)
  have bad: "\<not> list_all (\<lambda>d. getRegistryMethod registry kind d \<noteq> Inl TypeError) defs
       \<longrightarrow> getRegistryValues registry kind config control defs = Inl TypeError"
    using getRegistryMethods_fault[of registry kind defs]
    by (simp add: getRegistryValues_def)
  from getRegistryMethod_eq[of registry kind d] absent own_only ok bad show ?thesis
    by (intro conjI)
qed

lemmas reg_defs = ex_registry_def ex_validators_def object_literal_def Object_prototype_def
  ex_builtin_def get_property_def getRegistryMethod_def getRegistryMethods_def
  getRegistryValues_def truthy_def map_filter_simps Let_def

text \<open>
  The registry with the category \<^verbatim>\<open>validators: { required }\<close>: the category \<^verbatim>\<open>triggers\<close>
  is absent and installs nothing; \<^verbatim>\<open>minLength\<close> is no property of the category and is
  dropped, \<^verbatim>\<open>required\<close> beside it is installed; and a list that names \<^verbatim>\<open>__proto__\<close> is a
  \<^verbatim>\<open>TypeError\<close>.
\<close>

theorem registry_lookup_reads_properties_witness:
  "ex_registry ''triggers'' = None
   \<and> getRegistryMethod ex_registry ''triggers'' \<lparr>name = ''required'', params = ()\<rparr> = Inr None
   \<and> getRegistryValues ex_registry ''triggers'' () () [\<lparr>name = ''required'', params = ()\<rparr>] = Inr []
   \<and> ex_registry ''validators'' = Some ex_validators
   \<and> own ex_validators ''minLength'' = None \<and> inherited ex_validators ''minLength'' = None
   \<and> getRegistryMethod ex_registry ''validators'' \<lparr>name = ''minLength'', params = ()\<rparr> = Inr None
   \<and> list_all (\<lambda>d. getRegistryMethod ex_registry ''validators'' d \<noteq> Inl TypeError)
        [\<lparr>name = ''minLength'', params = ()\<rparr>, \<lparr>name = ''required'', params = ()\<rparr>]
   \<and> getRegistryValues ex_registry ''validators'' () ()
        [\<lparr>name = ''minLength'', params = ()\<rparr>, \<lparr>name = ''required'', params = ()\<rparr>]
       = Inr [''required'']
   \<and> \<not> list_all (\<lambda>d. getRegistryMethod ex_registry ''validators'' d \<noteq> Inl TypeError)
        [\<lparr>name = ''required'', params = ()\<rparr>, \<lparr>name = ''__proto__'', params = ()\<rparr>]
   \<and> getRegistryValues ex_registry ''validators'' () ()
        [\<lparr>name = ''required'', params = ()\<rparr>, \<lparr>name = ''__proto__'', params = ()\<rparr>]
       = Inl TypeError"
proof -
  have none: "ex_registry ''triggers'' = None"
    by (simp add: ex_registry_def)
  have some: "ex_registry ''validators'' = Some ex_validators
      \<and> own ex_validators (name \<lparr>name = ''minLength'', params = ()\<rparr>) = None
      \<and> inherited ex_validators (name \<lparr>name = ''minLength'', params = ()\<rparr>) = None"
    by (simp add: ex_registry_def ex_validators_def object_literal_def Object_prototype_def)
  have ok: "list_all (\<lambda>d. getRegistryMethod ex_registry ''validators'' d \<noteq> Inl TypeError)
        [\<lparr>name = ''minLength'', params = ()\<rparr>, \<lparr>name = ''required'', params = ()\<rparr>]"
    by (simp add: reg_defs)
  have bad: "\<not> list_all (\<lambda>d. getRegistryMethod ex_registry ''validators'' d \<noteq> Inl TypeError)
        [\<lparr>name = ''required'', params = ()\<rparr>, \<lparr>name = ''__proto__'', params = ()\<rparr>]"
    by (simp add: reg_defs)
  note at_triggers = registry_lookup_reads_properties[where registry = ex_registry
      and kind = "''triggers''" and d = "\<lparr>name = ''required'', params = ()\<rparr>"
      and config = "()" and control = "()" and defs = "[\<lparr>name = ''required'', params = ()\<rparr>]"]
  note at_ok = registry_lookup_reads_properties[where registry = ex_registry
      and kind = "''validators''" and d = "\<lparr>name = ''minLength'', params = ()\<rparr>"
      and category = ex_validators and config = "()" and control = "()"
      and defs = "[\<lparr>name = ''minLength'', params = ()\<rparr>, \<lparr>name = ''required'', params = ()\<rparr>]"]
  note at_bad = registry_lookup_reads_properties[where registry = ex_registry
      and kind = "''validators''" and config = "()" and control = "()"
      and defs = "[\<lparr>name = ''required'', params = ()\<rparr>, \<lparr>name = ''__proto__'', params = ()\<rparr>]"]
  from at_triggers[THEN conjunct2, THEN conjunct1, THEN mp, OF none]
  have t: "getRegistryMethod ex_registry ''triggers'' \<lparr>name = ''required'', params = ()\<rparr> = Inr None
   \<and> getRegistryValues ex_registry ''triggers'' () () [\<lparr>name = ''required'', params = ()\<rparr>] = Inr []" .
  from at_ok[THEN conjunct2, THEN conjunct2, THEN conjunct1, THEN mp, OF some]
  have m: "getRegistryMethod ex_registry ''validators'' \<lparr>name = ''minLength'', params = ()\<rparr> = Inr None" .
  from at_ok[THEN conjunct2, THEN conjunct2, THEN conjunct2, THEN conjunct1, THEN mp, OF ok]
  have v: "getRegistryValues ex_registry ''validators'' () ()
        [\<lparr>name = ''minLength'', params = ()\<rparr>, \<lparr>name = ''required'', params = ()\<rparr>]
       = Inr [''required'']"
    by (simp add: reg_defs)
  from at_bad[THEN conjunct2, THEN conjunct2, THEN conjunct2, THEN conjunct2, THEN mp, OF bad]
  have b: "getRegistryValues ex_registry ''validators'' () ()
        [\<lparr>name = ''required'', params = ()\<rparr>, \<lparr>name = ''__proto__'', params = ()\<rparr>]
       = Inl TypeError" .
  from none t some m ok v bad b show ?thesis by simp
qed

text \<open>
  C7 as stated fails for the names a category inherits. The category
  \<^verbatim>\<open>{ required }\<close> has no entry \<^verbatim>\<open>toString\<close>, and the definition of that name resolves
  to the inherited function, whose result is installed as a source. It has no entry
  \<^verbatim>\<open>__proto__\<close>, and the definition of that name is a fault, also for the entry
  \<^verbatim>\<open>required\<close> beside it.
\<close>

theorem registry_inherited_name_counterexample:
  "ex_registry ''validators'' = Some ex_validators
   \<and> own ex_validators ''toString'' = None
   \<and> getRegistryMethod ex_registry ''validators'' \<lparr>name = ''toString'', params = ()\<rparr>
       = Inr (Some (ex_builtin ''toString''))
   \<and> getRegistryValues ex_registry ''validators'' () () [\<lparr>name = ''toString'', params = ()\<rparr>]
       = Inr [''what Object.prototype.toString returns'']
   \<and> own ex_validators ''__proto__'' = None
   \<and> getRegistryMethod ex_registry ''validators'' \<lparr>name = ''__proto__'', params = ()\<rparr>
       = Inl TypeError
   \<and> getRegistryValues ex_registry ''validators'' () ()
        [\<lparr>name = ''required'', params = ()\<rparr>, \<lparr>name = ''__proto__'', params = ()\<rparr>]
       = Inl TypeError"
  by (simp add: reg_defs)

section \<open>The value reduction of a group\<close>

lemma obj_set_fresh: "k \<notin> fst ` set acc \<Longrightarrow> obj_set acc k v = acc @ [(k, v)]"
  by (induction acc) auto

lemma reduce_fold:
  "distinct (map fst controls) \<Longrightarrow> fst ` set acc \<inter> fst ` set controls = {} \<Longrightarrow>
   fold (\<lambda>(name, c) acc.
             if \<not> disabled (status (s ! c)) \<or> dis then obj_set acc name (val (s ! c)) else acc)
       controls acc =
   acc @ map (\<lambda>(k, c). (k, val (s ! c)))
          (filter (\<lambda>(k, c). \<not> disabled (status (s ! c)) \<or> dis) controls)"
proof (induction controls arbitrary: acc)
  case Nil
  then show ?case by simp
next
  case (Cons kc controls)
  obtain k c where kc: "kc = (k, c)" by (cases kc)
  have fresh: "k \<notin> fst ` set acc" using Cons.prems(2) kc by auto
  show ?case
  proof (cases "\<not> disabled (status (s ! c)) \<or> dis")
    case True
    have "fst ` set (acc @ [(k, val (s ! c))]) \<inter> fst ` set controls = {}"
      using Cons.prems kc by auto
    then show ?thesis
      using Cons.IH[of "acc @ [(k, val (s ! c))]"] Cons.prems(1) True kc fresh
      by (simp add: obj_set_fresh)
  next
    case False
    have "fst ` set acc \<inter> fst ` set controls = {}"
      using Cons.prems kc by auto
    then show ?thesis
      using Cons.IH[of acc] Cons.prems(1) False kc by simp
  qed
qed

lemma reduceControls_eq:
  "distinct (map fst controls) \<Longrightarrow>
   reduceControls s controls dis =
     map (\<lambda>(k, c). (k, val (s ! c)))
       (filter (\<lambda>(k, c). \<not> disabled (status (s ! c)) \<or> dis) controls)"
  using reduce_fold[of controls "[]" s dis] by (simp add: reduceControls_def)

lemma status_upd_val:
  "a < length s \<Longrightarrow> status (s[a := (s ! a)\<lparr>val := v\<rparr>] ! x) = status (s ! x)"
  by (cases "x = a") simp_all

lemma update_self_eq:
  "update_self s a =
     s[a := (s ! a)\<lparr>val := (case shape (s ! a) of
                      Leaf \<Rightarrow> val (s ! a)
                    | Group controls \<Rightarrow> VObj (reduceControls s controls (disabled (status (s ! a))))
                    | Array controls \<Rightarrow> VArr (map (\<lambda>x. val (s ! x)) controls)),
             status := foldl or_status (status (s ! a))
                         (map (\<lambda>x. status (s ! x)) (children (s ! a)))\<rparr>]"
proof (cases "a < length s")
  case True
  then show ?thesis
    by (cases "shape (s ! a)")
      (simp_all add: update_self_def Let_def children_def status_upd_val)
next
  case False
  then show ?thesis
    by (simp add: update_self_def Let_def list_update_beyond split: shape.splits)
qed

text \<open>
  C5. The reduction of a group's controls (their keys are distinct, being the keys of an
  object) is the list of the children that are not disabled, or of all children when the
  flag passed for the group is set, each with its value and in the order of the keys:
  a key is in the output record if and only if its child is not individually disabled or
  the group is disabled. \<^verbatim>\<open>GroupControl.update\<close> stores that reduction as the value of
  the group, taken with the group's own \<^verbatim>\<open>status.disabled\<close> as it is when the update
  starts, before the flags of the children are merged into it.
\<close>

theorem reduceControls_includes:
  assumes "distinct (map fst controls)"
  shows "reduceControls s controls dis =
           map (\<lambda>(k, c). (k, val (s ! c)))
             (filter (\<lambda>(k, c). \<not> disabled (status (s ! c)) \<or> dis) controls)
       \<and> ((k, v) \<in> set (reduceControls s controls dis) \<longleftrightarrow>
           (\<exists>c. (k, c) \<in> set controls \<and> (\<not> disabled (status (s ! c)) \<or> dis)
                \<and> v = val (s ! c)))
       \<and> (a < length s \<and> shape (s ! a) = Group controls \<longrightarrow>
           val (update_self s a ! a) =
             VObj (reduceControls s controls (disabled (status (s ! a)))))"
proof -
  have eq: "reduceControls s controls dis =
           map (\<lambda>(k, c). (k, val (s ! c)))
             (filter (\<lambda>(k, c). \<not> disabled (status (s ! c)) \<or> dis) controls)"
    by (rule reduceControls_eq[OF assms])
  have mem: "(k, v) \<in> set (reduceControls s controls dis) \<longleftrightarrow>
           (\<exists>c. (k, c) \<in> set controls \<and> (\<not> disabled (status (s ! c)) \<or> dis)
                \<and> v = val (s ! c))"
    unfolding eq by auto
  have upd: "a < length s \<and> shape (s ! a) = Group controls \<longrightarrow>
           val (update_self s a ! a) =
             VObj (reduceControls s controls (disabled (status (s ! a))))"
    by (simp add: update_self_eq)
  from eq mem upd show ?thesis by blast
qed

text \<open>
  The group over an enabled \<open>x\<close> and a disabled \<open>y\<close>: enabled, its value has \<open>x\<close>
  only; taken as disabled, it has both. The group built over them (control 2) is
  disabled, and its update stores the value with both keys.
\<close>

theorem reduceControls_includes_witness:
  "distinct (map fst [(''x'', 0::nat), (''y'', 1)])
   \<and> reduceControls ex_two_fields [(''x'', 0), (''y'', 1)] False = [(''x'', VNum 1)]
   \<and> reduceControls ex_two_fields [(''x'', 0), (''y'', 1)] True =
       [(''x'', VNum 1), (''y'', VNum 2)]
   \<and> (''y'', VNum 2) \<notin> set (reduceControls ex_two_fields [(''x'', 0), (''y'', 1)] False)
   \<and> 2 < length ex_group \<and> shape (ex_group ! 2) = Group [(''x'', 0), (''y'', 1)]
   \<and> disabled (status (ex_group ! 2))
   \<and> val (update_self ex_group 2 ! 2) = VObj [(''x'', VNum 1), (''y'', VNum 2)]"
proof -
  have d: "distinct (map fst [(''x'', 0::nat), (''y'', 1)])" by simp
  have g: "2 < length ex_group \<and> shape (ex_group ! 2) = Group [(''x'', 0), (''y'', 1)]"
    "disabled (status (ex_group ! 2))"
    "reduceControls ex_group [(''x'', 0), (''y'', 1)] True = [(''x'', VNum 1), (''y'', VNum 2)]"
    by (simp_all add: ex_group_def ex_two_fields_eq eval_defs)
  from reduceControls_includes[OF d, of ex_group True "''y''" "VNum 2" 2,
      THEN conjunct2, THEN conjunct2, THEN mp, OF g(1)] g
  have u: "val (update_self ex_group 2 ! 2) = VObj [(''x'', VNum 1), (''y'', VNum 2)]"
    by simp
  from reduceControls_includes[OF d, of ex_two_fields False "''y''" "VNum 2" 0]
    reduceControls_includes[OF d, of ex_two_fields True "''y''" "VNum 2" 0]
  have "reduceControls ex_two_fields [(''x'', 0), (''y'', 1)] False = [(''x'', VNum 1)]
   \<and> reduceControls ex_two_fields [(''x'', 0), (''y'', 1)] True =
       [(''x'', VNum 1), (''y'', VNum 2)]
   \<and> (''y'', VNum 2) \<notin> set (reduceControls ex_two_fields [(''x'', 0), (''y'', 1)] False)"
    by (simp add: ex_two_fields_eq)
  with d g u show ?thesis by simp
qed

section \<open>One update, and the walk up the parents\<close>

lemma update_self_length [simp]: "length (update_self s a) = length s"
  by (simp add: update_self_eq)

lemma update_self_other: "x \<noteq> a \<Longrightarrow> update_self s a ! x = s ! x"
  by (simp add: update_self_eq)

lemma update_self_static:
  "parent (update_self s a ! x) = parent (s ! x)"
  "initialized (update_self s a ! x) = initialized (s ! x)"
  "shape (update_self s a ! x) = shape (s ! x)"
  "initialValue (update_self s a ! x) = initialValue (s ! x)"
  "errors (update_self s a ! x) = errors (s ! x)"
  "validators (update_self s a ! x) = validators (s ! x)"
  "validationSub (update_self s a ! x) = validationSub (s ! x)"
  "invocations (update_self s a ! x) = invocations (s ! x)"
  "published (update_self s a ! x) = published (s ! x)"
  by (cases "x = a"; cases "a < length s"; simp add: update_self_eq list_update_beyond)+

lemma chain_ends_cong:
  "(\<And>x. parent (t ! x) = parent (s ! x) \<and> initialized (t ! x) = initialized (s ! x)) \<Longrightarrow>
   chain_ends n t a = chain_ends n s a"
  by (induction n arbitrary: a) (simp_all split: option.splits)

lemma ancestors_cong:
  "(\<And>x. parent (t ! x) = parent (s ! x) \<and> initialized (t ! x) = initialized (s ! x)) \<Longrightarrow>
   ancestors n t a = ancestors n s a"
  by (induction n arbitrary: a) (simp_all split: option.splits)

lemma chain_ends_update_self: "chain_ends n (update_self s a) x = chain_ends n s x"
  by (rule chain_ends_cong) (simp add: update_self_static)

lemma ancestors_update_self: "ancestors n (update_self s a) x = ancestors n s x"
  by (rule ancestors_cong) (simp add: update_self_static)

lemma updateN_returns: "chain_ends n s a \<Longrightarrow> \<exists>s'. updateN n s a = Some s'"
proof (induction n arbitrary: s a)
  case 0
  then show ?case by simp
next
  case (Suc n)
  show ?case
  proof (cases "initialized (s ! a)")
    case False
    then show ?thesis by simp
  next
    case True
    show ?thesis
    proof (cases "parent (s ! a)")
      case None
      with True show ?thesis by simp
    next
      case (Some p)
      with True Suc.prems have "chain_ends n (update_self s a) p"
        by (simp add: chain_ends_update_self)
      from Suc.IH[OF this] True Some show ?thesis by simp
    qed
  qed
qed

lemma updateN_length: "updateN n s a = Some s' \<Longrightarrow> length s' = length s"
proof (induction n arbitrary: s a)
  case 0
  then show ?case by simp
next
  case (Suc n)
  show ?case
  proof (cases "initialized (s ! a)")
    case False
    with Suc.prems show ?thesis by simp
  next
    case True
    show ?thesis
    proof (cases "parent (s ! a)")
      case None
      with True Suc.prems show ?thesis by auto
    next
      case (Some p)
      with True Suc.prems have "updateN n (update_self s a) p = Some s'" by simp
      from Suc.IH[OF this] show ?thesis by simp
    qed
  qed
qed

text \<open>An update changes the control it starts from and the ancestors it reaches, nothing
  else.\<close>

lemma updateN_frame:
  "updateN n s a = Some s' \<Longrightarrow> x \<noteq> a \<Longrightarrow> x \<notin> set (ancestors n s a) \<Longrightarrow> s' ! x = s ! x"
proof (induction n arbitrary: s a)
  case 0
  then show ?case by simp
next
  case (Suc n)
  show ?case
  proof (cases "initialized (s ! a)")
    case False
    with Suc.prems show ?thesis by simp
  next
    case True
    show ?thesis
    proof (cases "parent (s ! a)")
      case None
      with True Suc.prems show ?thesis by (auto simp: update_self_other)
    next
      case (Some p)
      with True Suc.prems have run: "updateN n (update_self s a) p = Some s'"
        and xp: "x \<noteq> p" and notin: "x \<notin> set (ancestors n (update_self s a) p)"
        by (simp_all add: ancestors_update_self)
      from Suc.IH[OF run xp notin] Suc.prems(2) show ?thesis
        by (simp add: update_self_other)
    qed
  qed
qed

text \<open>An update writes values and statuses only.\<close>

lemma updateN_static:
  assumes "updateN n s a = Some s'"
  shows "parent (s' ! x) = parent (s ! x) \<and> initialized (s' ! x) = initialized (s ! x)
    \<and> shape (s' ! x) = shape (s ! x) \<and> initialValue (s' ! x) = initialValue (s ! x)
    \<and> errors (s' ! x) = errors (s ! x) \<and> validators (s' ! x) = validators (s ! x)
    \<and> validationSub (s' ! x) = validationSub (s ! x)
    \<and> invocations (s' ! x) = invocations (s ! x) \<and> published (s' ! x) = published (s ! x)"
  using assms
proof (induction n arbitrary: s a)
  case 0
  then show ?case by simp
next
  case (Suc n)
  show ?case
  proof (cases "initialized (s ! a)")
    case False
    with Suc.prems show ?thesis by simp
  next
    case True
    show ?thesis
    proof (cases "parent (s ! a)")
      case None
      with True Suc.prems show ?thesis by (auto simp: update_self_static)
    next
      case (Some p)
      with True Suc.prems have run: "updateN n (update_self s a) p = Some s'"
        by simp
      from Suc.IH[OF run] show ?thesis
        by (simp add: update_self_static)
    qed
  qed
qed

lemma chain_passes:
  "x \<in> set (ancestors n s a) \<Longrightarrow> chain_ends m s a \<Longrightarrow> \<exists>m'<m. chain_ends m' s x"
proof (induction n arbitrary: a m)
  case 0
  then show ?case by simp
next
  case (Suc n)
  have init: "initialized (s ! a)"
    using Suc.prems(1) by (auto split: if_splits)
  then obtain p where par: "parent (s ! a) = Some p"
    using Suc.prems(1) by (cases "parent (s ! a)") auto
  have x: "x = p \<or> x \<in> set (ancestors n s p)"
    using Suc.prems(1) init par by auto
  from Suc.prems(2) obtain m0 where m: "m = Suc m0" by (cases m) auto
  with Suc.prems(2) init par have w: "chain_ends m0 s p" by simp
  from x show ?case
  proof
    assume "x = p"
    with w m show ?thesis by auto
  next
    assume "x \<in> set (ancestors n s p)"
    from Suc.IH[OF this w] m show ?thesis by (auto intro: less_SucI)
  qed
qed

text \<open>A chain that ends does not come back to where it started.\<close>

lemma chain_ends_not_own_ancestor: "chain_ends m s a \<Longrightarrow> a \<notin> set (ancestors n s a)"
proof (induction m rule: less_induct)
  case (less m)
  show ?case
  proof
    assume own: "a \<in> set (ancestors n s a)"
    from chain_passes[OF own less.prems] obtain m' where "m' < m" "chain_ends m' s a" by auto
    with less.IH[of m'] own show False by simp
  qed
qed

text \<open>So the control an update starts from ends up as its own recomputation left it.\<close>

lemma updateN_self:
  assumes "updateN n s a = Some s'" and "initialized (s ! a)" and "chain_ends n s a"
  shows "s' ! a = update_self s a ! a"
proof (cases n)
  case 0
  with assms(1) show ?thesis by simp
next
  case (Suc n')
  show ?thesis
  proof (cases "parent (s ! a)")
    case None
    with assms(1,2) Suc show ?thesis by auto
  next
    case (Some p)
    with assms(1,2) Suc have run: "updateN n' (update_self s a) p = Some s'" by simp
    have "a \<notin> set (ancestors n s a)"
      by (rule chain_ends_not_own_ancestor[OF assms(3)])
    with Suc Some assms(2) have "a \<noteq> p" and "a \<notin> set (ancestors n' (update_self s a) p)"
      by (simp_all add: ancestors_update_self)
    with updateN_frame[OF run] show ?thesis by simp
  qed
qed

lemma update_self_leaf:
  "a < length s \<Longrightarrow> shape (s ! a) = Leaf \<Longrightarrow> update_self s a = s"
  by (simp add: update_self_eq children_def)

text \<open>\<^verbatim>\<open>setStatus\<close> returns when the parent chain ends, and leaves in the control what its
  own recomputation of the merged status gives.\<close>

lemma setStatus_result:
  assumes "a < length s" and "chain_ends (length s) s a"
  shows "\<exists>s'. setStatus s a p = Some s' \<and> length s' = length s \<and>
           s' ! a = (if initialized (s ! a)
                     then update_self (s[a := (s ! a)\<lparr>status := merge_status (status (s ! a)) p\<rparr>]) a ! a
                     else (s ! a)\<lparr>status := merge_status (status (s ! a)) p\<rparr>)"
proof -
  let ?s1 = "s[a := (s ! a)\<lparr>status := merge_status (status (s ! a)) p\<rparr>]"
  have st: "\<And>x. parent (?s1 ! x) = parent (s ! x) \<and> initialized (?s1 ! x) = initialized (s ! x)"
    using assms(1) by (simp add: nth_list_update)
  have ce: "chain_ends (length ?s1) ?s1 a"
    using assms(2) chain_ends_cong[of ?s1 s "length s" a, OF st] by simp
  from updateN_returns[OF ce] obtain s' where run: "updateN (length ?s1) ?s1 a = Some s'" by auto
  have len: "length s' = length s" using updateN_length[OF run] by simp
  show ?thesis
  proof (cases "initialized (s ! a)")
    case True
    then have "initialized (?s1 ! a)" using st by simp
    from updateN_self[OF run this ce] run len True show ?thesis
      by (simp add: setStatus_def update_def)
  next
    case False
    then have ni: "\<not> initialized (?s1 ! a)" using st by simp
    obtain m where m: "length ?s1 = Suc m" using assms(1) by (cases "length ?s1") auto
    with run ni have "s' = ?s1" by simp
    with run len False assms(1) show ?thesis
      by (simp add: setStatus_def update_def)
  qed
qed

section \<open>The status of a composite\<close>

lemma foldl_or_status_flags:
  "valid (foldl or_status st sts) = (valid st \<or> (\<exists>c\<in>set sts. valid c))"
  "pending (foldl or_status st sts) = (pending st \<or> (\<exists>c\<in>set sts. pending c))"
  "dirty (foldl or_status st sts) = (dirty st \<or> (\<exists>c\<in>set sts. dirty c))"
  "touched (foldl or_status st sts) = (touched st \<or> (\<exists>c\<in>set sts. touched c))"
  "disabled (foldl or_status st sts) = (disabled st \<or> (\<exists>c\<in>set sts. disabled c))"
  by (induction sts arbitrary: st; auto simp: or_status_def)+

lemma update_result:
  assumes "a < length s" and "initialized (s ! a)" and "chain_ends (length s) s a"
  shows "\<exists>s'. update s a = Some s' \<and> length s' = length s \<and> s' ! a = update_self s a ! a"
proof -
  from updateN_returns[OF assms(3)] obtain s' where run: "updateN (length s) s a = Some s'"
    by auto
  from updateN_self[OF run assms(2,3)] updateN_length[OF run] run show ?thesis
    by (simp add: update_def)
qed

lemma push_status: "status (ArrayControl_push s a items ! a) = status (s ! a)"
proof -
  have reg: "\<And>t. status (fold (\<lambda>c s'. registerControl s' a c) items t ! a) = status (t ! a)"
  proof (induction items)
    case Nil
    show ?case by simp
  next
    case (Cons c cs)
    have "status (registerControl t a c ! a) = status (t ! a)"
      by (cases "c = a"; cases "a < length t";
          simp add: registerControl_def setParent_def list_update_beyond)
    with Cons.IH[of "registerControl t a c"] show ?case by simp
  qed
  show ?thesis
    unfolding ArrayControl_push_def
    by (cases "a < length s") (simp_all add: reg list_update_beyond)
qed

lemma insert_status: "status (ArrayControl_insert s a i item ! a) = status (s ! a)"
  by (cases "item = a"; cases "a < length s";
      simp add: ArrayControl_insert_def Let_def registerControl_def setParent_def
        list_update_beyond)

lemma removeAt_status: "status (ArrayControl_removeAt s a i ! a) = status (s ! a)"
  by (cases "a < length s"; simp add: ArrayControl_removeAt_def Let_def list_update_beyond)

lemma clear_result:
  assumes "a < length s" and "initialized (s ! a)" and "chain_ends (length s) s a"
  shows "\<exists>s1. ArrayControl_clear s a = Some s1 \<and> length s1 = length s
           \<and> s1 ! a = (s ! a)\<lparr>shape := Array [], val := VArr [],
                 status := merge_status (status (s ! a))
                             (no_status\<lparr>p_dirty := Some True, p_touched := Some True\<rparr>)\<rparr>"
proof -
  let ?p = "no_status\<lparr>p_dirty := Some True, p_touched := Some True\<rparr>"
  let ?s0 = "s[a := (s ! a)\<lparr>shape := Array []\<rparr>]"
  have a0: "a < length ?s0" using assms(1) by simp
  have st: "\<And>x. parent (?s0 ! x) = parent (s ! x) \<and> initialized (?s0 ! x) = initialized (s ! x)"
    using assms(1) by (simp add: nth_list_update)
  have ce: "chain_ends (length ?s0) ?s0 a"
    using assms(3) chain_ends_cong[of ?s0 s "length s" a, OF st] by simp
  from setStatus_result[OF a0 ce, of ?p] obtain s1 where
    run: "setStatus ?s0 a ?p = Some s1" and len: "length s1 = length ?s0" and
    res: "s1 ! a = (if initialized (?s0 ! a)
                     then update_self (?s0[a := (?s0 ! a)\<lparr>status := merge_status (status (?s0 ! a)) ?p\<rparr>]) a ! a
                     else (?s0 ! a)\<lparr>status := merge_status (status (?s0 ! a)) ?p\<rparr>)"
    by blast
  have "s1 ! a = (s ! a)\<lparr>shape := Array [], val := VArr [],
                 status := merge_status (status (s ! a)) ?p\<rparr>"
    using res assms(1,2) by (simp add: update_self_eq children_def)
  with run len show ?thesis
    by (simp add: ArrayControl_clear_def)
qed

lemma update_child_parent:
  assumes "c < length s" and "initialized (s ! c)" and "parent (s ! c) = Some a"
    and "initialized (s ! a)" and "chain_ends (length s) s c"
  shows "\<exists>s'. update s c = Some s' \<and> length s' = length s \<and> a \<noteq> c
           \<and> s' ! c = update_self s c ! c
           \<and> s' ! a = update_self (update_self s c) a ! a"
proof -
  obtain n where n: "length s = Suc n" using assms(1) by (cases "length s") auto
  let ?t = "update_self s c"
  from assms(5) n assms(2,3) have ce_a: "chain_ends n s a" by simp
  then have ce_t: "chain_ends n ?t a" by (simp add: chain_ends_update_self)
  have init_t: "initialized (?t ! a)" using assms(4) by (simp add: update_self_static)
  from updateN_returns[OF ce_t] obtain s' where run_a: "updateN n ?t a = Some s'" by auto
  have run_c: "updateN (length s) s c = Some s'"
    using n assms(2,3) run_a by simp
  have c_self: "s' ! c = ?t ! c"
    by (rule updateN_self[OF run_c assms(2,5)])
  have a_self: "s' ! a = update_self ?t a ! a"
    by (rule updateN_self[OF run_a init_t ce_t])
  have "c \<notin> set (ancestors (length s) s c)"
    by (rule chain_ends_not_own_ancestor[OF assms(5)])
  then have ne: "a \<noteq> c" using n assms(2,3) by auto
  from run_c c_self a_self ne updateN_length[OF run_c] show ?thesis
    by (simp add: update_def)
qed

text \<open>A child changes its value and status and updates: what that leaves in the child and
  in its parent.\<close>

lemma child_setStatus:
  assumes "c < length s" and "a < length s" and "initialized (s ! c)"
    and "parent (s ! c) = Some a" and "initialized (s ! a)" and "chain_ends (length s) s c"
  shows "\<exists>s'. setStatus (s[c := (s ! c)\<lparr>val := w\<rparr>]) c p = Some s'
           \<and> status (s' ! c) =
               foldl or_status (merge_status (status (s ! c)) p)
                 (map (\<lambda>x. if x = c then merge_status (status (s ! c)) p else status (s ! x))
                    (children (s ! c)))
           \<and> status (s' ! a) =
               foldl or_status (status (s ! a))
                 (map (\<lambda>x. status (if x = c then s' ! c else s ! x)) (children (s ! a)))"
proof -
  let ?s1 = "s[c := (s ! c)\<lparr>val := w, status := merge_status (status (s ! c)) p\<rparr>]"
  have st: "\<And>x. parent (?s1 ! x) = parent (s ! x) \<and> initialized (?s1 ! x) = initialized (s ! x)"
    using assms(1) by (simp add: nth_list_update)
  have ce: "chain_ends (length ?s1) ?s1 c"
    using assms(6) chain_ends_cong[of ?s1 s "length s" c, OF st] by simp
  have h: "c < length ?s1" "initialized (?s1 ! c)" "parent (?s1 ! c) = Some a"
    "initialized (?s1 ! a)"
    using assms st by simp_all
  from update_child_parent[OF h ce] obtain s' where
    run: "update ?s1 c = Some s'" and ne: "a \<noteq> c" and
    c_self: "s' ! c = update_self ?s1 c ! c" and
    a_self: "s' ! a = update_self (update_self ?s1 c) a ! a"
    by blast
  have sc: "status (s' ! c) =
               foldl or_status (merge_status (status (s ! c)) p)
                 (map (\<lambda>x. if x = c then merge_status (status (s ! c)) p else status (s ! x))
                    (children (s ! c)))"
    using assms(1)
    by (auto simp add: c_self update_self_eq children_def nth_list_update
          intro!: arg_cong[where f = "foldl or_status (merge_status (status (s ! c)) p)"])
  let ?t = "update_self ?s1 c"
  have tx: "\<And>x. ?t ! x = (if x = c then s' ! c else s ! x)"
    using assms(1) by (simp add: c_self update_self_other)
  have ta: "?t ! a = s ! a" using ne tx by simp
  have "status (s' ! a) =
      foldl or_status (status (?t ! a)) (map (\<lambda>x. status (?t ! x)) (children (?t ! a)))"
    using assms(2) by (simp add: a_self update_self_eq del: update_self_length)
  then have sa: "status (s' ! a) =
               foldl or_status (status (s ! a))
                 (map (\<lambda>x. status (if x = c then s' ! c else s ! x)) (children (s ! a)))"
    unfolding ta by (simp only: tx)
  have "setStatus (s[c := (s ! c)\<lparr>val := w\<rparr>]) c p = Some s'"
    using run assms(1) by (simp add: setStatus_def)
  with sc sa show ?thesis by blast
qed

lemma or_child_flags:
  assumes "st = foldl or_status st0 (map f xs)" and "c \<in> set xs"
  shows "(valid (f c) \<longrightarrow> valid st) \<and> (disabled (f c) \<longrightarrow> disabled st)
    \<and> (pending (f c) \<longrightarrow> pending st) \<and> (dirty (f c) \<longrightarrow> dirty st)
    \<and> (touched (f c) \<longrightarrow> touched st)"
  using assms by (auto simp: foldl_or_status_flags)

lemma composite_setStatus:
  assumes "a < length s" and "initialized (s ! a)" and "chain_ends (length s) s a"
  shows "\<exists>s'. setStatus s a p = Some s'
           \<and> status (s' ! a) =
               foldl or_status (merge_status (status (s ! a)) p)
                 (map (\<lambda>x. if x = a then merge_status (status (s ! a)) p else status (s ! x))
                    (children (s ! a)))"
proof -
  from setStatus_result[OF assms(1,3), of p] obtain s' where
    run: "setStatus s a p = Some s'" and
    res: "s' ! a = update_self (s[a := (s ! a)\<lparr>status := merge_status (status (s ! a)) p\<rparr>]) a ! a"
    using assms(2) by auto
  have "status (s' ! a) =
               foldl or_status (merge_status (status (s ! a)) p)
                 (map (\<lambda>x. if x = a then merge_status (status (s ! a)) p else status (s ! x))
                    (children (s ! a)))"
    using assms(1)
    by (auto simp add: res update_self_eq children_def nth_list_update
          intro!: arg_cong[where f = "foldl or_status (merge_status (status (s ! a)) p)"])
  with run show ?thesis by blast
qed

text \<open>
  C2, as the code has it. For an initialized composite whose parent chain has no cycle,
  \<^verbatim>\<open>update()\<close> returns and stores in each of the five status fields the value the
  composite had stored before, OR-ed with that field of every current child (valid
  included: one valid child makes the composite valid). The composite keeps no local flag
  apart from the stored aggregate, so no update lowers a flag. \<^verbatim>\<open>setStatus\<close> merges the
  given fields into the stored status and then updates in that way; \<^verbatim>\<open>clear\<close> empties the
  array, raises dirty and touched and updates. \<^verbatim>\<open>push\<close>, \<^verbatim>\<open>insert\<close> and \<^verbatim>\<open>removeAt\<close> run
  no update and leave the status of the array as it was.

  A registered child \<open>c\<close> (its parent link points at the composite, which lists it) that
  sets its status updates itself and then the composite: the composite is left with its
  stored status OR-ed with the status of every current child, that of \<open>c\<close> being the new
  one, so every flag \<open>c\<close> has after the call the composite has too. \<^verbatim>\<open>setValue\<close> of a
  child field leaves the field and the composite dirty and touched; \<^verbatim>\<open>reset\<close> of a child
  field lowers dirty and touched in the field, and the composite keeps what it had.
\<close>

theorem composite_status_accumulates:
  assumes "a < length s" and "initialized (s ! a)" and "chain_ends (length s) s a"
  shows "(\<exists>s'. update s a = Some s'
           \<and> valid (status (s' ! a)) =
               (valid (status (s ! a)) \<or> (\<exists>c\<in>set (children (s ! a)). valid (status (s ! c))))
           \<and> disabled (status (s' ! a)) =
               (disabled (status (s ! a))
                \<or> (\<exists>c\<in>set (children (s ! a)). disabled (status (s ! c))))
           \<and> pending (status (s' ! a)) =
               (pending (status (s ! a)) \<or> (\<exists>c\<in>set (children (s ! a)). pending (status (s ! c))))
           \<and> dirty (status (s' ! a)) =
               (dirty (status (s ! a)) \<or> (\<exists>c\<in>set (children (s ! a)). dirty (status (s ! c))))
           \<and> touched (status (s' ! a)) =
               (touched (status (s ! a))
                \<or> (\<exists>c\<in>set (children (s ! a)). touched (status (s ! c)))))
       \<and> (\<exists>s'. setStatus s a p = Some s'
             \<and> status (s' ! a) =
                 foldl or_status (merge_status (status (s ! a)) p)
                   (map (\<lambda>x. if x = a then merge_status (status (s ! a)) p else status (s ! x))
                      (children (s ! a))))
       \<and> (\<exists>s'. ArrayControl_clear s a = Some s'
             \<and> children (s' ! a) = []
             \<and> status (s' ! a) =
                 merge_status (status (s ! a))
                   (no_status\<lparr>p_dirty := Some True, p_touched := Some True\<rparr>))
       \<and> status (ArrayControl_push s a items ! a) = status (s ! a)
       \<and> status (ArrayControl_insert s a i item ! a) = status (s ! a)
       \<and> status (ArrayControl_removeAt s a i ! a) = status (s ! a)
       \<and> (c < length s \<and> initialized (s ! c) \<and> parent (s ! c) = Some a
            \<and> c \<in> set (children (s ! a)) \<and> chain_ends (length s) s c \<longrightarrow>
           (\<exists>s'. setStatus s c q = Some s'
              \<and> status (s' ! c) =
                  foldl or_status (merge_status (status (s ! c)) q)
                    (map (\<lambda>x. if x = c then merge_status (status (s ! c)) q
                              else status (s ! x))
                       (children (s ! c)))
              \<and> status (s' ! a) =
                  foldl or_status (status (s ! a))
                    (map (\<lambda>x. status (if x = c then s' ! c else s ! x)) (children (s ! a)))
              \<and> (valid (status (s' ! c)) \<longrightarrow> valid (status (s' ! a)))
              \<and> (disabled (status (s' ! c)) \<longrightarrow> disabled (status (s' ! a)))
              \<and> (pending (status (s' ! c)) \<longrightarrow> pending (status (s' ! a)))
              \<and> (dirty (status (s' ! c)) \<longrightarrow> dirty (status (s' ! a)))
              \<and> (touched (status (s' ! c)) \<longrightarrow> touched (status (s' ! a))))
         \<and> (shape (s ! c) = Leaf \<longrightarrow>
             (\<exists>s'. FieldControl_setValue s c v = Some s'
                \<and> status (s' ! a) =
                    foldl or_status (status (s ! a))
                      (map (\<lambda>x. status (if x = c then s' ! c else s ! x)) (children (s ! a)))
                \<and> dirty (status (s' ! c)) \<and> touched (status (s' ! c))
                \<and> dirty (status (s' ! a)) \<and> touched (status (s' ! a)))
           \<and> (\<exists>s'. FieldControl_reset s c = Some s'
                \<and> status (s' ! a) =
                    foldl or_status (status (s ! a))
                      (map (\<lambda>x. status (if x = c then s' ! c else s ! x)) (children (s ! a)))
                \<and> \<not> dirty (status (s' ! c)) \<and> \<not> touched (status (s' ! c)))))"
proof -
  from update_result[OF assms] obtain s' where run: "update s a = Some s'"
    and self: "s' ! a = update_self s a ! a" by blast
  have st: "status (s' ! a) =
      foldl or_status (status (s ! a)) (map (\<lambda>x. status (s ! x)) (children (s ! a)))"
    using self assms(1) by (simp add: update_self_eq)
  have upd: "\<exists>s'. update s a = Some s'
           \<and> valid (status (s' ! a)) =
               (valid (status (s ! a)) \<or> (\<exists>c\<in>set (children (s ! a)). valid (status (s ! c))))
           \<and> disabled (status (s' ! a)) =
               (disabled (status (s ! a))
                \<or> (\<exists>c\<in>set (children (s ! a)). disabled (status (s ! c))))
           \<and> pending (status (s' ! a)) =
               (pending (status (s ! a)) \<or> (\<exists>c\<in>set (children (s ! a)). pending (status (s ! c))))
           \<and> dirty (status (s' ! a)) =
               (dirty (status (s ! a)) \<or> (\<exists>c\<in>set (children (s ! a)). dirty (status (s ! c))))
           \<and> touched (status (s' ! a)) =
               (touched (status (s ! a))
                \<or> (\<exists>c\<in>set (children (s ! a)). touched (status (s ! c))))"
    using run by (simp add: st foldl_or_status_flags)
  from clear_result[OF assms] have clr: "\<exists>s'. ArrayControl_clear s a = Some s'
             \<and> children (s' ! a) = []
             \<and> status (s' ! a) =
                 merge_status (status (s ! a))
                   (no_status\<lparr>p_dirty := Some True, p_touched := Some True\<rparr>)"
    by (auto simp: children_def)
  have child: "c < length s \<and> initialized (s ! c) \<and> parent (s ! c) = Some a
            \<and> c \<in> set (children (s ! a)) \<and> chain_ends (length s) s c \<longrightarrow>
           (\<exists>s'. setStatus s c q = Some s'
              \<and> status (s' ! c) =
                  foldl or_status (merge_status (status (s ! c)) q)
                    (map (\<lambda>x. if x = c then merge_status (status (s ! c)) q
                              else status (s ! x))
                       (children (s ! c)))
              \<and> status (s' ! a) =
                  foldl or_status (status (s ! a))
                    (map (\<lambda>x. status (if x = c then s' ! c else s ! x)) (children (s ! a)))
              \<and> (valid (status (s' ! c)) \<longrightarrow> valid (status (s' ! a)))
              \<and> (disabled (status (s' ! c)) \<longrightarrow> disabled (status (s' ! a)))
              \<and> (pending (status (s' ! c)) \<longrightarrow> pending (status (s' ! a)))
              \<and> (dirty (status (s' ! c)) \<longrightarrow> dirty (status (s' ! a)))
              \<and> (touched (status (s' ! c)) \<longrightarrow> touched (status (s' ! a))))
         \<and> (shape (s ! c) = Leaf \<longrightarrow>
             (\<exists>s'. FieldControl_setValue s c v = Some s'
                \<and> status (s' ! a) =
                    foldl or_status (status (s ! a))
                      (map (\<lambda>x. status (if x = c then s' ! c else s ! x)) (children (s ! a)))
                \<and> dirty (status (s' ! c)) \<and> touched (status (s' ! c))
                \<and> dirty (status (s' ! a)) \<and> touched (status (s' ! a)))
           \<and> (\<exists>s'. FieldControl_reset s c = Some s'
                \<and> status (s' ! a) =
                    foldl or_status (status (s ! a))
                      (map (\<lambda>x. status (if x = c then s' ! c else s ! x)) (children (s ! a)))
                \<and> \<not> dirty (status (s' ! c)) \<and> \<not> touched (status (s' ! c))))"
    (is "?H \<longrightarrow> ?C")
  proof
    assume h: "c < length s \<and> initialized (s ! c) \<and> parent (s ! c) = Some a
            \<and> c \<in> set (children (s ! a)) \<and> chain_ends (length s) s c"
    then have hc: "c < length s" "initialized (s ! c)" "parent (s ! c) = Some a"
      "chain_ends (length s) s c" and mem: "c \<in> set (children (s ! a))" by simp_all
    note gen = child_setStatus[OF hc(1) assms(1) hc(2,3) assms(2) hc(4)]
    have same: "s[c := (s ! c)\<lparr>val := val (s ! c)\<rparr>] = s"
      using hc(1) by (simp add: list_update_same_conv)
    from gen[of "val (s ! c)" q] obtain s1 where
      r1: "setStatus s c q = Some s1" and
      c1: "status (s1 ! c) =
               foldl or_status (merge_status (status (s ! c)) q)
                 (map (\<lambda>x. if x = c then merge_status (status (s ! c)) q else status (s ! x))
                    (children (s ! c)))" and
      a1: "status (s1 ! a) =
               foldl or_status (status (s ! a))
                 (map (\<lambda>x. status (if x = c then s1 ! c else s ! x)) (children (s ! a)))"
      unfolding same by blast
    from or_child_flags[OF a1 mem] have f1:
      "(valid (status (s1 ! c)) \<longrightarrow> valid (status (s1 ! a)))
       \<and> (disabled (status (s1 ! c)) \<longrightarrow> disabled (status (s1 ! a)))
       \<and> (pending (status (s1 ! c)) \<longrightarrow> pending (status (s1 ! a)))
       \<and> (dirty (status (s1 ! c)) \<longrightarrow> dirty (status (s1 ! a)))
       \<and> (touched (status (s1 ! c)) \<longrightarrow> touched (status (s1 ! a)))"
      by simp
    from gen[of v "no_status\<lparr>p_dirty := Some True, p_touched := Some True\<rparr>"] obtain s2 where
      r2: "FieldControl_setValue s c v = Some s2" and
      c2: "status (s2 ! c) =
               foldl or_status (merge_status (status (s ! c))
                   (no_status\<lparr>p_dirty := Some True, p_touched := Some True\<rparr>))
                 (map (\<lambda>x. if x = c then merge_status (status (s ! c))
                        (no_status\<lparr>p_dirty := Some True, p_touched := Some True\<rparr>)
                      else status (s ! x))
                    (children (s ! c)))" and
      a2: "status (s2 ! a) =
               foldl or_status (status (s ! a))
                 (map (\<lambda>x. status (if x = c then s2 ! c else s ! x)) (children (s ! a)))"
      unfolding FieldControl_setValue_def by blast
    have d2: "dirty (status (s2 ! c))" "touched (status (s2 ! c))"
      by (simp_all add: c2 foldl_or_status_flags merge_status_def no_status_def)
    with or_child_flags[OF a2 mem] have p2: "dirty (status (s2 ! a))" "touched (status (s2 ! a))"
      by simp_all
    from gen[of "initialValue (s ! c)" "no_status\<lparr>p_dirty := Some False, p_touched := Some False\<rparr>"]
    obtain s3 where
      r3: "FieldControl_reset s c = Some s3" and
      c3: "status (s3 ! c) =
               foldl or_status (merge_status (status (s ! c))
                   (no_status\<lparr>p_dirty := Some False, p_touched := Some False\<rparr>))
                 (map (\<lambda>x. if x = c then merge_status (status (s ! c))
                        (no_status\<lparr>p_dirty := Some False, p_touched := Some False\<rparr>)
                      else status (s ! x))
                    (children (s ! c)))" and
      a3: "status (s3 ! a) =
               foldl or_status (status (s ! a))
                 (map (\<lambda>x. status (if x = c then s3 ! c else s ! x)) (children (s ! a)))"
      unfolding FieldControl_reset_def by blast
    have d3: "shape (s ! c) = Leaf \<longrightarrow> \<not> dirty (status (s3 ! c)) \<and> \<not> touched (status (s3 ! c))"
      by (simp add: c3 children_def merge_status_def no_status_def)
    from r1 c1 a1 f1 r2 a2 d2 p2 r3 a3 d3 show
      ?C
      by blast
  qed
  from upd composite_setStatus[OF assms, of p] clr child show ?thesis
    by (simp only: push_status insert_status removeAt_status simp_thms)
qed


text \<open>
  The array with the dirty group pushed into it: the next update raises dirty and
  touched in the array, removing the group again leaves the status alone, and \<^verbatim>\<open>clear\<close>
  leaves an empty array that is dirty and touched. The item group of an array (control
  2, its parent the array 0, its child the field 1): \<^verbatim>\<open>setStatus\<close> of the group raises
  pending in it; disabling the field disables the group; \<^verbatim>\<open>setValue\<close> of the field makes
  both dirty and touched; \<^verbatim>\<open>reset\<close> of the field leaves both clean.
\<close>

theorem composite_status_accumulates_witness:
  "2 < length ex_pushed \<and> initialized (ex_pushed ! 2)
   \<and> chain_ends (length ex_pushed) ex_pushed 2
   \<and> children (ex_pushed ! 2) = [1]
   \<and> (\<exists>s'. update ex_pushed 2 = Some s'
         \<and> dirty (status (s' ! 2)) \<and> touched (status (s' ! 2))
         \<and> \<not> valid (status (s' ! 2)) \<and> \<not> pending (status (s' ! 2))
         \<and> \<not> disabled (status (s' ! 2)))
   \<and> status (ArrayControl_removeAt ex_pushed 2 0 ! 2) = status (ex_pushed ! 2)
   \<and> (\<exists>s'. ArrayControl_clear ex_pushed 2 = Some s' \<and> children (s' ! 2) = []
         \<and> dirty (status (s' ! 2)) \<and> touched (status (s' ! 2)))
   \<and> 2 < length ex_array_A \<and> initialized (ex_array_A ! 2)
   \<and> chain_ends (length ex_array_A) ex_array_A 2
   \<and> parent (ex_array_A ! 2) = Some 0 \<and> children (ex_array_A ! 2) = [1]
   \<and> 1 < length ex_array_A \<and> initialized (ex_array_A ! 1)
   \<and> parent (ex_array_A ! 1) = Some 2 \<and> shape (ex_array_A ! 1) = Leaf
   \<and> chain_ends (length ex_array_A) ex_array_A 1
   \<and> \<not> dirty (status (ex_array_A ! 2)) \<and> \<not> disabled (status (ex_array_A ! 2))
   \<and> (\<exists>s'. setStatus ex_array_A 2 (no_status\<lparr>p_pending := Some True\<rparr>) = Some s'
         \<and> pending (status (s' ! 2)) \<and> \<not> dirty (status (s' ! 2)))
   \<and> (\<exists>s'. setStatus ex_array_A 1 (no_status\<lparr>p_disabled := Some True\<rparr>) = Some s'
         \<and> disabled (status (s' ! 1)) \<and> disabled (status (s' ! 2)))
   \<and> (\<exists>s'. FieldControl_setValue ex_array_A 1 (VStr ''B'') = Some s'
         \<and> dirty (status (s' ! 1)) \<and> touched (status (s' ! 1))
         \<and> dirty (status (s' ! 2)) \<and> touched (status (s' ! 2)))
   \<and> (\<exists>s'. FieldControl_reset ex_array_A 1 = Some s'
         \<and> \<not> dirty (status (s' ! 1)) \<and> \<not> dirty (status (s' ! 2)))"
proof -
  have h: "2 < length ex_pushed" "initialized (ex_pushed ! 2)"
    "chain_ends (length ex_pushed) ex_pushed 2"
    by (simp_all add: ex_pushed_def ex_empty_array_def ex_dirty_group_def ex_edited_field_eq
        eval_defs ex_defs)
  have v: "children (ex_pushed ! 2) = [1]"
    "status (ex_pushed ! 1)
       = \<lparr>valid = False, pending = False, dirty = True, touched = True, disabled = False\<rparr>"
    "status (ex_pushed ! 2)
       = \<lparr>valid = False, pending = False, dirty = False, touched = False, disabled = False\<rparr>"
    by (simp_all add: ex_pushed_def ex_empty_array_def ex_dirty_group_def ex_edited_field_eq
        eval_defs ex_defs)
  have k: "2 < length ex_array_A" "initialized (ex_array_A ! 2)"
    "chain_ends (length ex_array_A) ex_array_A 2"
    by (simp_all add: ex_array_A_def eval_defs ex_defs numeral_3_eq_3)
  have w: "parent (ex_array_A ! 2) = Some 0" "children (ex_array_A ! 2) = [1]"
    "1 < length ex_array_A" "initialized (ex_array_A ! 1)"
    "parent (ex_array_A ! 1) = Some 2" "shape (ex_array_A ! 1) = Leaf"
    "chain_ends (length ex_array_A) ex_array_A 1"
    "status (ex_array_A ! 1)
       = \<lparr>valid = False, pending = False, dirty = False, touched = False, disabled = False\<rparr>"
    "status (ex_array_A ! 2)
       = \<lparr>valid = False, pending = False, dirty = False, touched = False, disabled = False\<rparr>"
    by (simp_all add: ex_array_A_def eval_defs ex_defs numeral_3_eq_3)
  from composite_status_accumulates[OF h, where items = "[]" and i = 0 and item = 0
      and p = no_status and c = 0 and q = no_status and v = VNull] h v
  have first: "(\<exists>s'. update ex_pushed 2 = Some s'
         \<and> dirty (status (s' ! 2)) \<and> touched (status (s' ! 2))
         \<and> \<not> valid (status (s' ! 2)) \<and> \<not> pending (status (s' ! 2))
         \<and> \<not> disabled (status (s' ! 2)))
   \<and> status (ArrayControl_removeAt ex_pushed 2 0 ! 2) = status (ex_pushed ! 2)
   \<and> (\<exists>s'. ArrayControl_clear ex_pushed 2 = Some s' \<and> children (s' ! 2) = []
         \<and> dirty (status (s' ! 2)) \<and> touched (status (s' ! 2)))"
    by (auto simp: merge_status_def no_status_def)
  note at_A = composite_status_accumulates[OF k, where items = "[]" and i = 0 and item = 0
      and p = "no_status\<lparr>p_pending := Some True\<rparr>" and c = 1
      and q = "no_status\<lparr>p_disabled := Some True\<rparr>" and v = "VStr ''B''"]
  from at_A[THEN conjunct2, THEN conjunct1] obtain s1 where
    s1: "setStatus ex_array_A 2 (no_status\<lparr>p_pending := Some True\<rparr>) = Some s1"
      "status (s1 ! 2) =
         foldl or_status (merge_status (status (ex_array_A ! 2)) (no_status\<lparr>p_pending := Some True\<rparr>))
           (map (\<lambda>x. if x = 2 then merge_status (status (ex_array_A ! 2))
                    (no_status\<lparr>p_pending := Some True\<rparr>) else status (ex_array_A ! x))
              (children (ex_array_A ! 2)))"
    by blast
  have f1: "pending (status (s1 ! 2)) \<and> \<not> dirty (status (s1 ! 2))"
    using w by (simp add: s1(2) merge_status_def no_status_def or_status_def)
  have hyp: "1 < length ex_array_A \<and> initialized (ex_array_A ! 1)
      \<and> parent (ex_array_A ! 1) = Some 2 \<and> 1 \<in> set (children (ex_array_A ! 2))
      \<and> chain_ends (length ex_array_A) ex_array_A 1"
    using w by simp
  note child = at_A[THEN conjunct2, THEN conjunct2, THEN conjunct2, THEN conjunct2,
      THEN conjunct2, THEN conjunct2, THEN mp, OF hyp]
  from child[THEN conjunct1] obtain s2 where
    s2: "setStatus ex_array_A 1 (no_status\<lparr>p_disabled := Some True\<rparr>) = Some s2"
      "status (s2 ! 1) =
         foldl or_status (merge_status (status (ex_array_A ! 1)) (no_status\<lparr>p_disabled := Some True\<rparr>))
           (map (\<lambda>x. if x = 1 then merge_status (status (ex_array_A ! 1))
                    (no_status\<lparr>p_disabled := Some True\<rparr>) else status (ex_array_A ! x))
              (children (ex_array_A ! 1)))"
      "disabled (status (s2 ! 1)) \<longrightarrow> disabled (status (s2 ! 2))"
    by blast
  have f2: "disabled (status (s2 ! 1))"
    using w s2(2) by (simp add: children_def merge_status_def no_status_def)
  from child[THEN conjunct2, THEN mp, OF w(6), THEN conjunct1] obtain s3 where
    s3: "FieldControl_setValue ex_array_A 1 (VStr ''B'') = Some s3"
      "dirty (status (s3 ! 1))" "touched (status (s3 ! 1))"
      "dirty (status (s3 ! 2))" "touched (status (s3 ! 2))"
    by blast
  from child[THEN conjunct2, THEN mp, OF w(6), THEN conjunct2] obtain s4 where
    s4: "FieldControl_reset ex_array_A 1 = Some s4"
      "\<not> dirty (status (s4 ! 1))"
      "status (s4 ! 2) =
         foldl or_status (status (ex_array_A ! 2))
           (map (\<lambda>x. status (if x = 1 then s4 ! 1 else ex_array_A ! x))
              (children (ex_array_A ! 2)))"
    by blast
  have f4: "\<not> dirty (status (s4 ! 2))"
    using s4(2,3) w by (simp add: or_status_def)
  from h v k w first s1(1) f1 s2(1) f2 s2(3) s3 s4(1,2) f4 show ?thesis by simp
qed

text \<open>
  C2 as stated fails. A group that is dirty and touched is pushed into an array: the
  array then has a dirty child, and its own dirty flag is false. And an array whose only
  item was edited, and which is dirty through it, stays dirty when that item is removed.
\<close>

theorem composite_status_stale_counterexample:
  "children (ex_pushed ! 2) = [1] \<and> dirty (status (ex_pushed ! 1))
   \<and> \<not> dirty (status (ex_pushed ! 2))
   \<and> children (ex_array_A_edited ! 0) = [2] \<and> dirty (status (ex_array_A_edited ! 0))
   \<and> children (ex_removed ! 0) = [] \<and> dirty (status (ex_removed ! 0))"
  by (simp add: ex_pushed_def ex_empty_array_def ex_dirty_group_def ex_edited_field_eq
      ex_removed_def ex_array_A_edited_def ex_array_A_def eval_defs ex_defs)

section \<open>The parent back-reference\<close>

lemma registerControl_length [simp]: "length (registerControl s a c) = length s"
  by (simp add: registerControl_def setParent_def)

lemma fold_register_length [simp]:
  "length (fold (\<lambda>c s'. registerControl s' a c) items t) = length t"
  by (induction items arbitrary: t) simp_all

lemma fold_register_parent:
  "parent (fold (\<lambda>c s'. registerControl s' a c) items t ! x) =
     (if x \<in> set items \<and> x < length t then Some a else parent (t ! x))"
proof (induction items arbitrary: t)
  case Nil
  show ?case by simp
next
  case (Cons c cs)
  have step: "parent (registerControl t a c ! x) =
      (if x = c \<and> x < length t then Some a else parent (t ! x))"
    by (cases "x = c"; cases "c < length t";
        simp add: registerControl_def setParent_def list_update_beyond)
  show ?case
    using Cons.IH[of "registerControl t a c"] step by auto
qed

lemma setStatus_static:
  assumes "setStatus s a p = Some s'"
  shows "length s' = length s \<and> parent (s' ! x) = parent (s ! x)
    \<and> initialized (s' ! x) = initialized (s ! x) \<and> shape (s' ! x) = shape (s ! x)
    \<and> initialValue (s' ! x) = initialValue (s ! x) \<and> errors (s' ! x) = errors (s ! x)
    \<and> validators (s' ! x) = validators (s ! x) \<and> validationSub (s' ! x) = validationSub (s ! x)
    \<and> invocations (s' ! x) = invocations (s ! x) \<and> published (s' ! x) = published (s ! x)"
proof -
  let ?s1 = "s[a := (s ! a)\<lparr>status := merge_status (status (s ! a)) p\<rparr>]"
  from assms have run: "updateN (length ?s1) ?s1 a = Some s'"
    by (simp add: setStatus_def update_def)
  have same: "parent (?s1 ! x) = parent (s ! x) \<and> initialized (?s1 ! x) = initialized (s ! x)
    \<and> shape (?s1 ! x) = shape (s ! x) \<and> initialValue (?s1 ! x) = initialValue (s ! x)
    \<and> errors (?s1 ! x) = errors (s ! x) \<and> validators (?s1 ! x) = validators (s ! x)
    \<and> validationSub (?s1 ! x) = validationSub (s ! x)
    \<and> invocations (?s1 ! x) = invocations (s ! x) \<and> published (?s1 ! x) = published (s ! x)"
    by (cases "x = a"; cases "a < length s"; simp add: list_update_beyond)
  from updateN_static[OF run, of x] updateN_length[OF run] same show ?thesis by simp
qed

lemma publish_static:
  assumes "publish s a e = Some s'"
  shows "length s' = length s \<and> parent (s' ! x) = parent (s ! x)
    \<and> initialized (s' ! x) = initialized (s ! x) \<and> shape (s' ! x) = shape (s ! x)
    \<and> initialValue (s' ! x) = initialValue (s ! x)
    \<and> validators (s' ! x) = validators (s ! x) \<and> validationSub (s' ! x) = validationSub (s ! x)
    \<and> invocations (s' ! x) = invocations (s ! x) \<and> published (s' ! x) = published (s ! x)"
proof -
  let ?s1 = "s[a := (s ! a)\<lparr>errors := e\<rparr>]"
  from assms have run: "setStatus ?s1 a (no_status\<lparr>p_valid := Some (e \<noteq> None)\<rparr>) = Some s'"
    by (simp add: publish_def)
  have same: "parent (?s1 ! x) = parent (s ! x) \<and> initialized (?s1 ! x) = initialized (s ! x)
    \<and> shape (?s1 ! x) = shape (s ! x) \<and> initialValue (?s1 ! x) = initialValue (s ! x)
    \<and> validators (?s1 ! x) = validators (s ! x)
    \<and> validationSub (?s1 ! x) = validationSub (s ! x)
    \<and> invocations (?s1 ! x) = invocations (s ! x) \<and> published (?s1 ! x) = published (s ! x)"
    by (cases "x = a"; cases "a < length s"; simp add: list_update_beyond)
  from setStatus_static[OF run, of x] same show ?thesis by simp
qed

lemma validation_fire_static:
  assumes "validation_fire s a = Some s'"
  shows "length s' = length s \<and> parent (s' ! x) = parent (s ! x)
    \<and> initialized (s' ! x) = initialized (s ! x) \<and> shape (s' ! x) = shape (s ! x)
    \<and> initialValue (s' ! x) = initialValue (s ! x) \<and> validators (s' ! x) = validators (s ! x)
    \<and> invocations (s' ! x) = invocations (s ! x)"
proof (cases "validationSub (s ! a)")
  case None
  with assms show ?thesis by (simp add: validation_fire_def)
next
  case (Some ks)
  obtain k slots where ks: "ks = (k, slots)" by (cases ks)
  show ?thesis
  proof (cases "initialized (s ! a) \<and> list_all (\<lambda>x. x \<noteq> None) slots")
    case False
    with assms Some ks show ?thesis by (auto simp: validation_fire_def)
  next
    case True
    let ?e = "combineErrors (map the slots)"
    let ?s1 = "s[a := (s ! a)\<lparr>validationSub := None, published := published (s ! a) @ [(k, ?e)]\<rparr>]"
    from assms Some ks True have run: "publish ?s1 a ?e = Some s'"
      by (simp add: validation_fire_def Let_def)
    have same: "parent (?s1 ! x) = parent (s ! x) \<and> initialized (?s1 ! x) = initialized (s ! x)
      \<and> shape (?s1 ! x) = shape (s ! x) \<and> initialValue (?s1 ! x) = initialValue (s ! x)
      \<and> validators (?s1 ! x) = validators (s ! x)
      \<and> invocations (?s1 ! x) = invocations (s ! x)"
      by (cases "x = a"; cases "a < length s"; simp add: list_update_beyond)
    from publish_static[OF run, of x] same show ?thesis by simp
  qed
qed

lemma fieldReady_parent:
  assumes "fieldReady s a = Some s'"
  shows "length s' = length s \<and> parent (s' ! x) = parent (s ! x)"
proof -
  let ?s1 = "s[a := (s ! a)\<lparr>initialized := True\<rparr>]"
  from assms have run: "validation_fire ?s1 a = Some s'" by (simp add: fieldReady_def)
  have "parent (?s1 ! x) = parent (s ! x)"
    by (cases "x = a"; cases "a < length s"; simp add: list_update_beyond)
  with validation_fire_static[OF run, of x] show ?thesis by simp
qed

lemma new_GroupControl_parent:
  assumes "new_GroupControl controls vs dis s = Some (g, s')" and "c \<in> snd ` set controls"
    and "c < length s"
  shows "g = length s \<and> parent (s' ! c) = Some g"
proof -
  let ?a = "length s"
  let ?c0 = "fresh_control (Group controls) (VObj (reduceControls s controls dis)) vs"
  let ?slots = "map (\<lambda>v. case v (val ?c0) of Immediate r \<Rightarrow> Some r | Deferred \<Rightarrow> None) vs"
  let ?s1 = "s @ [?c0\<lparr>validationSub := Some (0, ?slots), invocations := Suc 0\<rparr>]"
  have v: "validate (s @ [?c0]) ?a = Some ?s1"
    by (simp add: validate_def validation_fire_def fresh_control_def Let_def)
  let ?s2 = "?s1[?a := (?s1 ! ?a)\<lparr>val := VObj (reduceControls ?s1 controls dis)\<rparr>]"
  let ?s3 = "fold (\<lambda>c s'. registerControl s' ?a c) (children (?s2 ! ?a)) ?s2"
  from assms(1) v have ready: "fieldReady ?s3 ?a = Some s'" and g: "g = ?a"
    by (auto simp: new_GroupControl_def Let_def split: Option.bind_splits)
  have ch: "children (?s2 ! ?a) = map snd controls"
    by (simp add: children_def fresh_control_def)
  have "parent (?s3 ! c) =
      (if c \<in> set (children (?s2 ! ?a)) \<and> c < length ?s2 then Some ?a else parent (?s2 ! c))"
    by (rule fold_register_parent)
  moreover have "c \<in> set (children (?s2 ! ?a))"
    unfolding ch using assms(2) by simp
  moreover have "c < length ?s2"
    using assms(3) by simp
  ultimately have "parent (?s3 ! c) = Some ?a"
    by (simp only: simp_thms if_True)
  with fieldReady_parent[OF ready, of c] g show ?thesis by simp
qed

text \<open>
  C8, as the code has it. \<^verbatim>\<open>setParent\<close> overwrites: registering a control with a
  composite (the constructor of a group, \<^verbatim>\<open>push\<close> and \<^verbatim>\<open>insert\<close> of an array) makes that
  composite its parent, whatever the parent was before. Only the visitor's second pass
  leaves a parent that is already set alone, and sets the parent it is given when the
  control has none.
\<close>

theorem registerControl_overwrites_parent:
  assumes "c < length s"
  shows "parent (registerControl s a c ! c) = Some a
       \<and> (c \<in> set items \<longrightarrow> parent (ArrayControl_push s a items ! c) = Some a)
       \<and> parent (ArrayControl_insert s a i c ! c) = Some a
       \<and> (c \<in> snd ` set controls \<and> new_GroupControl controls vs dis s = Some (g, s')
            \<longrightarrow> g = length s \<and> parent (s' ! c) = Some g)
       \<and> (parent (s ! c) \<noteq> None \<longrightarrow> initItem_parent s c q = s)
       \<and> (parent (s ! c) = None \<longrightarrow> parent (initItem_parent s c (Some p) ! c) = Some p)"
proof -
  have reg: "parent (registerControl s a c ! c) = Some a"
    using assms by (simp add: registerControl_def setParent_def)
  have push: "c \<in> set items \<longrightarrow> parent (ArrayControl_push s a items ! c) = Some a"
    using assms by (simp add: ArrayControl_push_def fold_register_parent)
  have ins: "parent (ArrayControl_insert s a i c ! c) = Some a"
    using assms by (simp add: ArrayControl_insert_def Let_def registerControl_def setParent_def)
  have grp: "c \<in> snd ` set controls \<and> new_GroupControl controls vs dis s = Some (g, s')
            \<longrightarrow> g = length s \<and> parent (s' ! c) = Some g"
    using new_GroupControl_parent[of controls vs dis s g s' c] assms by blast
  have keep: "parent (s ! c) \<noteq> None \<longrightarrow> initItem_parent s c q = s"
    by (simp add: initItem_parent_def)
  have attach: "parent (s ! c) = None \<longrightarrow> parent (initItem_parent s c (Some p) ! c) = Some p"
    using assms by (simp add: initItem_parent_def setParent_def)
  from reg push ins grp keep attach show ?thesis by blast
qed

text \<open>The field \<open>x\<close> of the group 2: each registration moves it, the second pass of the
  visitor does not.\<close>

theorem registerControl_overwrites_parent_witness:
  "0 < length ex_group \<and> parent (ex_group ! 0) = Some 2
   \<and> parent (registerControl ex_group 1 0 ! 0) = Some 1
   \<and> parent (ArrayControl_push ex_group 1 [0] ! 0) = Some 1
   \<and> parent (ArrayControl_insert ex_group 1 0 0 ! 0) = Some 1
   \<and> new_GroupControl [(''x'', 0), (''y'', 1)] [] False ex_group = Some (3, ex_regrouped)
   \<and> parent (ex_regrouped ! 0) = Some 3
   \<and> initItem_parent ex_group 0 (Some 1) = ex_group"
proof -
  have h: "0 < length ex_group"
    by (simp add: ex_group_def ex_two_fields_eq eval_defs)
  have p: "parent (ex_group ! 0) = Some 2"
    by (simp add: ex_group_def ex_two_fields_eq eval_defs)
  have g: "new_GroupControl [(''x'', 0), (''y'', 1)] [] False ex_group = Some (3, ex_regrouped)"
    by (simp add: ex_regrouped_def ex_group_def ex_two_fields_eq eval_defs)
  from registerControl_overwrites_parent[OF h, where a = 1 and items = "[0]" and i = 0
      and controls = "[(''x'', 0), (''y'', 1)]" and vs = "[]" and dis = False and g = 3
      and s' = ex_regrouped and q = "Some 1" and p = 1] h p g
  show ?thesis by simp
qed

text \<open>
  C8 as stated fails. The field \<open>x\<close> belongs to the group 2; a second group built over the
  same field becomes its parent. The item group 2 of one array, pushed into another array,
  gets that array as its parent. And the array the default visitor builds from a value of
  two entries has two item groups over the same controls: the field \<open>x\<close> is a child of
  both, its parent is the second.
\<close>

theorem parent_reassigned_counterexample:
  "parent (ex_group ! 0) = Some 2 \<and> parent (ex_regrouped ! 0) = Some 3
   \<and> parent (ex_two_arrays ! 2) = Some 0 \<and> parent (ex_moved ! 2) = Some 3
   \<and> children (ex_visited ! 3) = [0, 1] \<and> children (ex_visited ! 4) = [0, 1]
   \<and> parent (ex_visited ! 0) = Some 4"
  by (simp add: ex_regrouped_def ex_group_def ex_visited_def ex_two_fields_eq ex_moved_def
      ex_two_arrays_def ex_array_A_def eval_defs ex_defs)

section \<open>Resizing an array\<close>

lemma push_controls:
  "a < length s \<Longrightarrow>
   array_controls (ArrayControl_push s a items ! a) = array_controls (s ! a) @ items"
proof -
  assume a: "a < length s"
  have reg: "\<And>t. shape (fold (\<lambda>c s'. registerControl s' a c) items t ! a) = shape (t ! a)"
  proof (induction items)
    case Nil
    show ?case by simp
  next
    case (Cons c cs)
    have "shape (registerControl t a c ! a) = shape (t ! a)"
      by (cases "c = a"; cases "a < length t";
          simp add: registerControl_def setParent_def list_update_beyond)
    with Cons.IH[of "registerControl t a c"] show ?case by simp
  qed
  show ?thesis
    using a by (simp add: ArrayControl_push_def array_controls_def reg)
qed

text \<open>
  C10. On an initialized array whose parent chain has no cycle, \<^verbatim>\<open>resize(0)\<close> clears the
  array, which leaves it without controls and with the value \<open>[]\<close>; the index range
  \<open>range 0 (-1)\<close> has the one index 0, so the item factory is called exactly once, with the
  seed null, and its control is pushed: the array then has exactly that one control
  (a factory leaves the controls of the array alone). \<^verbatim>\<open>setValue([])\<close> is that resize.
\<close>

theorem resize_zero_fabricates_one:
  assumes "a < length s" and "initialized (s ! a)" and "chain_ends (length s) s a"
  shows "\<exists>s1. ArrayControl_clear s a = Some s1
           \<and> array_controls (s1 ! a) = [] \<and> val (s1 ! a) = VArr []
           \<and> ArrayControl_resize f s a 0 =
               (case f VNull s1 of
                  None \<Rightarrow> None
                | Some (c, s2) \<Rightarrow> Some (ArrayControl_push s2 a [c]))
           \<and> (\<forall>c s2. f VNull s1 = Some (c, s2) \<and> a < length s2 \<and> array_controls (s2 ! a) = []
                 \<longrightarrow> array_controls (ArrayControl_push s2 a [c] ! a) = [c])
           \<and> (\<forall>cs n. shape (s ! a) = Array cs
                 \<longrightarrow> setValueN F (Suc n) s a (VArr []) = ArrayControl_resize (F a) s a 0)"
proof -
  from clear_result[OF assms] obtain s1 where
    cl: "ArrayControl_clear s a = Some s1" and
    s1a: "s1 ! a = (s ! a)\<lparr>shape := Array [], val := VArr [],
                 status := merge_status (status (s ! a))
                             (no_status\<lparr>p_dirty := Some True, p_touched := Some True\<rparr>)\<rparr>"
    by blast
  have ctl: "array_controls (s1 ! a) = []" and v: "val (s1 ! a) = VArr []"
    by (simp_all add: s1a array_controls_def)
  have rz: "\<And>g. ArrayControl_resize g s a 0 =
               (case g VNull s1 of
                  None \<Rightarrow> None
                | Some (c, s2) \<Rightarrow> Some (ArrayControl_push s2 a [c]))"
    by (simp add: ArrayControl_resize_def cl range_def seedAt_def v split: option.splits)
  have sv: "\<forall>cs n. shape (s ! a) = Array cs
                 \<longrightarrow> setValueN F (Suc n) s a (VArr []) = ArrayControl_resize (F a) s a 0"
    by (simp add: split: option.splits)
  show ?thesis
    using cl ctl v rz[of f] sv by (simp add: push_controls)
qed

text \<open>The array of two items: \<^verbatim>\<open>resize(0)\<close> and \<^verbatim>\<open>setValue([])\<close> leave it with the one
  new control 6, a group over a field built from null.\<close>

theorem resize_zero_fabricates_one_witness:
  "0 < length ex_array_AB \<and> initialized (ex_array_AB ! 0)
   \<and> chain_ends (length ex_array_AB) ex_array_AB 0
   \<and> array_controls (ex_array_AB ! 0) = [2, 4]
   \<and> (\<exists>s'. ArrayControl_resize ex_itemFactory ex_array_AB 0 0 = Some s'
         \<and> setValueN (\<lambda>a. ex_itemFactory) 1 ex_array_AB 0 (VArr []) = Some s'
         \<and> array_controls (s' ! 0) = [6]
         \<and> val (s' ! 6) = VObj [(''name'', VNull)])"
proof -
  have h: "0 < length ex_array_AB" "initialized (ex_array_AB ! 0)"
    "chain_ends (length ex_array_AB) ex_array_AB 0"
    by (simp_all add: ex_array_AB_def eval_defs ex_defs)
  have sh: "shape (ex_array_AB ! 0) = Array [2, 4]"
    by (simp add: ex_array_AB_def eval_defs ex_defs)
  have rz: "\<exists>s'. ArrayControl_resize ex_itemFactory ex_array_AB 0 0 = Some s'
         \<and> array_controls (s' ! 0) = [6] \<and> val (s' ! 6) = VObj [(''name'', VNull)]"
    by (simp add: ex_array_AB_def eval_defs ex_defs)
  from resize_zero_fabricates_one[OF h, of ex_itemFactory "\<lambda>a. ex_itemFactory"] h sh rz
  show ?thesis
    by (auto simp: array_controls_def)
qed

section \<open>Validation: when a result is published\<close>

lemma publish_errors:
  assumes "publish s a e = Some s'" and "a < length s"
  shows "errors (s' ! a) = e"
proof -
  let ?s1 = "s[a := (s ! a)\<lparr>errors := e\<rparr>]"
  from assms(1) have run: "setStatus ?s1 a (no_status\<lparr>p_valid := Some (e \<noteq> None)\<rparr>) = Some s'"
    by (simp add: publish_def)
  from setStatus_static[OF run, of a] assms(2) show ?thesis by simp
qed

lemma validation_fire_effect:
  assumes "validation_fire s a = Some s'" and "a < length s"
  shows "initialized (s' ! a) = initialized (s ! a) \<and> invocations (s' ! a) = invocations (s ! a)
    \<and> validators (s' ! a) = validators (s ! a)
    \<and> ((validationSub (s' ! a) = validationSub (s ! a) \<and> published (s' ! a) = published (s ! a))
       \<or> (\<exists>k slots. validationSub (s ! a) = Some (k, slots) \<and> initialized (s ! a)
             \<and> validationSub (s' ! a) = None
             \<and> published (s' ! a) = published (s ! a) @ [(k, combineErrors (map the slots))]))
    \<and> errors (s' ! a) = (if published (s' ! a) = published (s ! a) then errors (s ! a)
                          else snd (last (published (s' ! a))))"
proof (cases "validationSub (s ! a)")
  case None
  with assms show ?thesis by (simp add: validation_fire_def)
next
  case (Some ks)
  obtain k slots where ks: "ks = (k, slots)" by (cases ks)
  show ?thesis
  proof (cases "initialized (s ! a) \<and> list_all (\<lambda>x. x \<noteq> None) slots")
    case False
    with assms Some ks show ?thesis by (auto simp: validation_fire_def)
  next
    case True
    let ?e = "combineErrors (map the slots)"
    let ?s1 = "s[a := (s ! a)\<lparr>validationSub := None, published := published (s ! a) @ [(k, ?e)]\<rparr>]"
    from assms Some ks True have run: "publish ?s1 a ?e = Some s'"
      by (simp add: validation_fire_def Let_def)
    from publish_errors[OF run] publish_static[OF run, of a] assms(2) Some ks True
    show ?thesis by simp
  qed
qed

lemma fire_inv:
  assumes "validation_fire s a = Some s'" and "a < length s" and "validation_inv (s ! a)"
  shows "validation_inv (s' ! a)"
  using validation_fire_effect[OF assms(1,2)] assms(3)
  by (fastforce simp: validation_inv_def list_all_iff split: option.splits if_splits)

lemma fire_length: "validation_fire s a = Some s' \<Longrightarrow> length s' = length s"
  using validation_fire_static by blast

lemma validate_inv:
  assumes "validate s a = Some s'" and "a < length s" and "validation_inv (s ! a)"
  shows "validation_inv (s' ! a) \<and> length s' = length s"
proof -
  let ?c = "s ! a"
  let ?slots = "map (\<lambda>v. case v (val ?c) of Immediate r \<Rightarrow> Some r | Deferred \<Rightarrow> None) (validators ?c)"
  let ?s1 = "s[a := ?c\<lparr>validationSub := Some (invocations ?c, ?slots), invocations := Suc (invocations ?c)\<rparr>]"
  from assms(1) have run: "validation_fire ?s1 a = Some s'"
    by (simp add: validate_def Let_def)
  have "validation_inv (?s1 ! a)"
    using assms(2,3)
    by (fastforce simp: validation_inv_def list_all_iff split: if_splits option.splits)
  from fire_inv[OF run _ this] fire_length[OF run] assms(2) show ?thesis by simp
qed

lemma publish_other:
  assumes "publish s a e = Some s'" and "x \<noteq> a"
  shows "errors (s' ! x) = errors (s ! x)"
proof -
  let ?s1 = "s[a := (s ! a)\<lparr>errors := e\<rparr>]"
  from assms(1) have run: "setStatus ?s1 a (no_status\<lparr>p_valid := Some (e \<noteq> None)\<rparr>) = Some s'"
    by (simp add: publish_def)
  from setStatus_static[OF run, of x] assms(2) show ?thesis by simp
qed

lemma validation_fire_other:
  assumes "validation_fire s a = Some s'" and "x \<noteq> a"
  shows "validationSub (s' ! x) = validationSub (s ! x) \<and> published (s' ! x) = published (s ! x)
    \<and> errors (s' ! x) = errors (s ! x)"
proof (cases "validationSub (s ! a)")
  case None
  with assms show ?thesis by (simp add: validation_fire_def)
next
  case (Some ks)
  obtain k slots where ks: "ks = (k, slots)" by (cases ks)
  show ?thesis
  proof (cases "initialized (s ! a) \<and> list_all (\<lambda>x. x \<noteq> None) slots")
    case False
    with assms Some ks show ?thesis by (auto simp: validation_fire_def)
  next
    case True
    let ?e = "combineErrors (map the slots)"
    let ?s1 = "s[a := (s ! a)\<lparr>validationSub := None, published := published (s ! a) @ [(k, ?e)]\<rparr>]"
    from assms Some ks True have run: "publish ?s1 a ?e = Some s'"
      by (simp add: validation_fire_def Let_def)
    from publish_static[OF run, of x] publish_other[OF run assms(2)] assms(2)
    show ?thesis by simp
  qed
qed

text \<open>Registering controls with a composite changes their parent and nothing else.\<close>

lemma fold_register_fields:
  "initialized (fold (\<lambda>c s'. registerControl s' a c) items t ! x) = initialized (t ! x)
   \<and> errors (fold (\<lambda>c s'. registerControl s' a c) items t ! x) = errors (t ! x)
   \<and> validators (fold (\<lambda>c s'. registerControl s' a c) items t ! x) = validators (t ! x)
   \<and> validationSub (fold (\<lambda>c s'. registerControl s' a c) items t ! x) = validationSub (t ! x)
   \<and> invocations (fold (\<lambda>c s'. registerControl s' a c) items t ! x) = invocations (t ! x)
   \<and> published (fold (\<lambda>c s'. registerControl s' a c) items t ! x) = published (t ! x)"
proof (induction items arbitrary: t)
  case Nil
  show ?case by simp
next
  case (Cons c cs)
  have step: "initialized (registerControl t a c ! x) = initialized (t ! x)
   \<and> errors (registerControl t a c ! x) = errors (t ! x)
   \<and> validators (registerControl t a c ! x) = validators (t ! x)
   \<and> validationSub (registerControl t a c ! x) = validationSub (t ! x)
   \<and> invocations (registerControl t a c ! x) = invocations (t ! x)
   \<and> published (registerControl t a c ! x) = published (t ! x)"
    by (cases "x = c"; cases "c < length t";
        simp add: registerControl_def setParent_def list_update_beyond)
  show ?case
    using Cons.IH[of "registerControl t a c"] step by simp
qed

text \<open>The constructor of a group leaves the validation of the controls that exist
  alone.\<close>

lemma new_GroupControl_frame:
  assumes "new_GroupControl controls vs dis s = Some (g, s')" and "x < length s"
  shows "length s' = Suc (length s)
   \<and> initialized (s' ! x) = initialized (s ! x) \<and> errors (s' ! x) = errors (s ! x)
   \<and> validators (s' ! x) = validators (s ! x) \<and> validationSub (s' ! x) = validationSub (s ! x)
   \<and> invocations (s' ! x) = invocations (s ! x) \<and> published (s' ! x) = published (s ! x)"
proof -
  let ?a = "length s"
  let ?c0 = "fresh_control (Group controls) (VObj (reduceControls s controls dis)) vs"
  let ?slots = "map (\<lambda>v. case v (val ?c0) of Immediate r \<Rightarrow> Some r | Deferred \<Rightarrow> None) vs"
  let ?s1 = "s @ [?c0\<lparr>validationSub := Some (0, ?slots), invocations := Suc 0\<rparr>]"
  have v: "validate (s @ [?c0]) ?a = Some ?s1"
    by (simp add: validate_def validation_fire_def fresh_control_def Let_def)
  let ?s2 = "?s1[?a := (?s1 ! ?a)\<lparr>val := VObj (reduceControls ?s1 controls dis)\<rparr>]"
  let ?s3 = "fold (\<lambda>c s'. registerControl s' ?a c) (children (?s2 ! ?a)) ?s2"
  let ?s4 = "?s3[?a := (?s3 ! ?a)\<lparr>initialized := True\<rparr>]"
  from assms(1) v have ready: "validation_fire ?s4 ?a = Some s'"
    by (auto simp: new_GroupControl_def fieldReady_def Let_def split: Option.bind_splits)
  have ne: "x \<noteq> ?a" using assms(2) by simp
  have x2: "?s2 ! x = s ! x"
    using assms(2) by (simp add: nth_append)
  have x4: "?s4 ! x = ?s3 ! x"
    using ne by simp
  from fold_register_fields[of ?a "children (?s2 ! ?a)" ?s2 x]
  have x3: "initialized (?s3 ! x) = initialized (s ! x) \<and> errors (?s3 ! x) = errors (s ! x)
   \<and> validators (?s3 ! x) = validators (s ! x) \<and> validationSub (?s3 ! x) = validationSub (s ! x)
   \<and> invocations (?s3 ! x) = invocations (s ! x) \<and> published (?s3 ! x) = published (s ! x)"
    unfolding x2 .
  have len: "length ?s4 = Suc (length s)" by simp
  from validation_fire_static[OF ready, of x] validation_fire_other[OF ready ne] x3 len
  show ?thesis unfolding x4 by simp
qed

lemma push_fields:
  "length (ArrayControl_push s arr items) = length s
   \<and> initialized (ArrayControl_push s arr items ! x) = initialized (s ! x)
   \<and> errors (ArrayControl_push s arr items ! x) = errors (s ! x)
   \<and> validators (ArrayControl_push s arr items ! x) = validators (s ! x)
   \<and> validationSub (ArrayControl_push s arr items ! x) = validationSub (s ! x)
   \<and> invocations (ArrayControl_push s arr items ! x) = invocations (s ! x)
   \<and> published (ArrayControl_push s arr items ! x) = published (s ! x)"
proof -
  let ?t = "s[arr := (s ! arr)\<lparr>shape := Array (array_controls (s ! arr) @ items)\<rparr>]"
  have t: "initialized (?t ! x) = initialized (s ! x) \<and> errors (?t ! x) = errors (s ! x)
   \<and> validators (?t ! x) = validators (s ! x) \<and> validationSub (?t ! x) = validationSub (s ! x)
   \<and> invocations (?t ! x) = invocations (s ! x) \<and> published (?t ! x) = published (s ! x)"
    by (cases "x = arr"; cases "arr < length s"; simp add: list_update_beyond)
  from fold_register_fields[of arr items ?t x] t show ?thesis
    by (simp add: ArrayControl_push_def)
qed

lemma validation_inv_cong:
  "initialized c' = initialized c \<Longrightarrow> published c' = published c \<Longrightarrow> errors c' = errors c \<Longrightarrow>
   invocations c' = invocations c \<Longrightarrow> validationSub c' = validationSub c \<Longrightarrow>
   validation_inv c' = validation_inv c"
  by (simp add: validation_inv_def split: option.splits)

lemma step_inv:
  assumes "event_step a e s = Some s'" and "a < length s" and "validation_inv (s ! a)"
  shows "validation_inv (s' ! a) \<and> length s \<le> length s'"
proof (cases e)
  case Validate
  with assms validate_inv[of s a s'] show ?thesis by simp
next
  case (SetValidators vs)
  let ?s1 = "s[a := (s ! a)\<lparr>validators := vs\<rparr>]"
  from assms(1) SetValidators have run: "validate ?s1 a = Some s'"
    by (simp add: setValidators_def)
  have "validation_inv (?s1 ! a)"
    using assms(2,3) by (auto simp: validation_inv_def split: option.splits)
  from validate_inv[OF run _ this] assms(2) show ?thesis by simp
next
  case Ready
  let ?s1 = "s[a := (s ! a)\<lparr>initialized := True\<rparr>]"
  from assms(1) Ready have run: "validation_fire ?s1 a = Some s'"
    by (simp add: fieldReady_def)
  have "validation_inv (?s1 ! a)"
    using assms(2,3) by (auto simp: validation_inv_def split: if_splits option.splits)
  from fire_inv[OF run _ this] fire_length[OF run] assms(2) show ?thesis by simp
next
  case (Deliver k i r)
  show ?thesis
  proof (cases "validationSub (s ! a)")
    case None
    with assms Deliver show ?thesis by (simp add: deliver_def)
  next
    case (Some ks)
    obtain k' slots where ks: "ks = (k', slots)" by (cases ks)
    show ?thesis
    proof (cases "k' = k \<and> i < length slots \<and> slots ! i = None")
      case False
      with assms Deliver Some ks show ?thesis by (auto simp: deliver_def)
    next
      case True
      let ?s1 = "s[a := (s ! a)\<lparr>validationSub := Some (k', slots[i := Some r])\<rparr>]"
      from assms(1) Deliver Some ks True have run: "validation_fire ?s1 a = Some s'"
        by (simp add: deliver_def)
      have "validation_inv (?s1 ! a)"
        using assms(2,3) Some ks by (auto simp: validation_inv_def split: option.splits)
      from fire_inv[OF run _ this] fire_length[OF run] assms(2) show ?thesis by simp
    qed
  qed
next
  case (SetValue v)
  let ?s1 = "s[a := (s ! a)\<lparr>val := v\<rparr>]"
  from assms(1) SetValue
  have run: "setStatus ?s1 a (no_status\<lparr>p_dirty := Some True, p_touched := Some True\<rparr>) = Some s'"
    by (simp add: FieldControl_setValue_def)
  from setStatus_static[OF run, of a] assms(2,3) show ?thesis
    by (auto simp: validation_inv_def split: option.splits)
next
  case (NewGroup controls vs dis)
  with assms(1) obtain g where run: "new_GroupControl controls vs dis s = Some (g, s')"
    by (auto split: if_splits)
  from new_GroupControl_frame[OF run assms(2)] assms(3) show ?thesis
    by (simp add: validation_inv_cong[of "s' ! a" "s ! a"])
next
  case (PushInto arr)
  with assms(1) have run: "s' = ArrayControl_push s arr [a]"
    by (auto split: if_splits shape.splits)
  from push_fields[of s arr "[a]" a] assms(3) show ?thesis
    unfolding run by (simp add: validation_inv_cong[of "ArrayControl_push s arr [a] ! a" "s ! a"])
qed

lemma run_inv:
  "run a evs s = Some s' \<Longrightarrow> a < length s \<Longrightarrow> validation_inv (s ! a) \<Longrightarrow>
   validation_inv (s' ! a) \<and> length s \<le> length s'"
proof (induction evs arbitrary: s)
  case Nil
  then show ?case by (simp add: run_def)
next
  case (Cons e evs)
  from Cons.prems(1) obtain s1 where st: "event_step a e s = Some s1"
    and rest: "run a evs s1 = Some s'"
    by (auto simp: run_def split: option.splits)
  from step_inv[OF st Cons.prems(2,3)] have "validation_inv (s1 ! a)" "a < length s1"
    using Cons.prems(2) by simp_all
  from Cons.IH[OF rest this(2,1)] step_inv[OF st Cons.prems(2,3)] show ?case by simp
qed

lemma forEach_append:
  "forEach f (xs @ ys) s = (case forEach f xs s of None \<Rightarrow> None | Some s' \<Rightarrow> forEach f ys s')"
  by (induction xs arbitrary: s) (simp_all split: option.splits)

lemma run_append:
  "run a evs s = Some s' \<Longrightarrow> run a (evs @ [e]) s = event_step a e s'"
  by (simp add: run_def forEach_append split: option.splits)

text \<open>The gate is open and every source has answered: the subscription publishes and
  closes.\<close>

lemma fire_publishes:
  assumes "a < length s" and "initialized (s ! a)" and "validationSub (s ! a) = Some (k, slots)"
    and "list_all (\<lambda>x. x \<noteq> None) slots" and "chain_ends (length s) s a"
  shows "\<exists>s'. validation_fire s a = Some s' \<and> initialized (s' ! a)
           \<and> validationSub (s' ! a) = None \<and> invocations (s' ! a) = invocations (s ! a)
           \<and> published (s' ! a) = published (s ! a) @ [(k, combineErrors (map the slots))]
           \<and> errors (s' ! a) = combineErrors (map the slots)"
proof -
  let ?e = "combineErrors (map the slots)"
  let ?s2 = "s[a := (s ! a)\<lparr>validationSub := None, published := published (s ! a) @ [(k, ?e)]\<rparr>]"
  let ?s3 = "?s2[a := (?s2 ! a)\<lparr>errors := ?e\<rparr>]"
  have v: "validation_fire s a = setStatus ?s3 a (no_status\<lparr>p_valid := Some (?e \<noteq> None)\<rparr>)"
    using assms(1-4) by (simp add: validation_fire_def publish_def Let_def)
  have st: "\<And>x. parent (?s3 ! x) = parent (s ! x) \<and> initialized (?s3 ! x) = initialized (s ! x)"
    using assms(1) by (simp add: nth_list_update)
  have ce: "chain_ends (length ?s3) ?s3 a"
    using assms(5) chain_ends_cong[of ?s3 s "length s" a, OF st] by simp
  have a3: "a < length ?s3" using assms(1) by simp
  from setStatus_result[OF a3 ce] obtain s' where
    run: "setStatus ?s3 a (no_status\<lparr>p_valid := Some (?e \<noteq> None)\<rparr>) = Some s'" by blast
  from setStatus_static[OF run, of a] assms(1,2) v run show ?thesis
    by simp
qed

lemma validate_publishes_once:
  assumes "a < length s" and "initialized (s ! a)" and "chain_ends (length s) s a"
    and "list_all (\<lambda>v. v (val (s ! a)) \<noteq> Deferred) (validators (s ! a))"
  shows "\<exists>s'. validate s a = Some s'
           \<and> invocations (s' ! a) = Suc (invocations (s ! a))
           \<and> validationSub (s' ! a) = None
           \<and> (\<exists>e. published (s' ! a) = published (s ! a) @ [(invocations (s ! a), e)]
                 \<and> errors (s' ! a) = e)"
proof -
  let ?c = "s ! a"
  let ?slots = "map (\<lambda>v. case v (val ?c) of Immediate r \<Rightarrow> Some r | Deferred \<Rightarrow> None) (validators ?c)"
  let ?e = "combineErrors (map the ?slots)"
  let ?s1 = "s[a := ?c\<lparr>validationSub := Some (invocations ?c, ?slots), invocations := Suc (invocations ?c)\<rparr>]"
  let ?s2 = "?s1[a := (?s1 ! a)\<lparr>validationSub := None,
                published := published (?s1 ! a) @ [(invocations ?c, ?e)]\<rparr>]"
  let ?s3 = "?s2[a := (?s2 ! a)\<lparr>errors := ?e\<rparr>]"
  have filled: "list_all (\<lambda>x. x \<noteq> None) ?slots"
    using assms(4) by (auto simp: list_all_iff split: vresult.splits)
  have v: "validate s a = setStatus ?s3 a (no_status\<lparr>p_valid := Some (?e \<noteq> None)\<rparr>)"
    using assms(1,2) filled
    by (simp add: validate_def validation_fire_def publish_def Let_def)
  have st: "\<And>x. parent (?s3 ! x) = parent (s ! x) \<and> initialized (?s3 ! x) = initialized (s ! x)"
    using assms(1) by (simp add: nth_list_update)
  have ce: "chain_ends (length ?s3) ?s3 a"
    using assms(3) chain_ends_cong[of ?s3 s "length s" a, OF st] by simp
  have a3: "a < length ?s3" using assms(1) by simp
  from setStatus_result[OF a3 ce] obtain s' where
    run: "setStatus ?s3 a (no_status\<lparr>p_valid := Some (?e \<noteq> None)\<rparr>) = Some s'" by blast
  from setStatus_static[OF run, of a] assms(1) v run show ?thesis
    by simp
qed



text \<open>
  C6, as the code has it. Take a control from the start of its constructor through any
  sequence of events, among them its registration with a group or an array. Then: while
  the gate is closed nothing has been published and \<open>errors\<close> is still null; \<open>errors\<close> is
  the last published result; no invocation of \<^verbatim>\<open>validate()\<close> has published more than once;
  and the only subscription that can still publish is that of the last invocation,
  \<^verbatim>\<open>validate()\<close> having replaced every earlier one. An invocation publishes, once, at the
  moment the gate is open and all its sources have answered while its subscription is the
  open one (the parent chain having no cycle): at once in \<^verbatim>\<open>setValidators\<close> with validators
  that answer at once on an initialized control; when the gate opens after a
  \<^verbatim>\<open>validate()\<close> whose sources have all answered; and when the last source answers an
  initialized control. An answer that leaves another source open, or arrives while the
  gate is closed, is stored and publishes nothing. The result of an invocation that is
  not the last one or that has published, and a second value of a source, are dropped:
  they change nothing.
\<close>

theorem validation_publishes_at_most_once:
  assumes "a = length s" and "run a evs (s @ [fresh_control sh v vs]) = Some s'"
  shows "(if initialized (s' ! a) then True else published (s' ! a) = [] \<and> errors (s' ! a) = None)
       \<and> errors (s' ! a) =
           (if published (s' ! a) = [] then None else snd (last (published (s' ! a))))
       \<and> distinct (map fst (published (s' ! a)))
       \<and> list_all (\<lambda>p. fst p < invocations (s' ! a)) (published (s' ! a))
       \<and> (case validationSub (s' ! a) of
             None \<Rightarrow> True
           | Some sub \<Rightarrow>
               Suc (fst sub) = invocations (s' ! a)
               \<and> list_all (\<lambda>p. fst p \<noteq> fst sub) (published (s' ! a)))
       \<and> (initialized (s' ! a) \<and> chain_ends (length s') s' a
            \<and> list_all (\<lambda>w. w (val (s' ! a)) \<noteq> Deferred) ws \<longrightarrow>
           (\<exists>s''. setValidators s' a ws = Some s''
              \<and> run a (evs @ [SetValidators ws]) (s @ [fresh_control sh v vs]) = Some s''
              \<and> invocations (s'' ! a) = Suc (invocations (s' ! a))
              \<and> validationSub (s'' ! a) = None
              \<and> (\<exists>e. published (s'' ! a) = published (s' ! a) @ [(invocations (s' ! a), e)]
                    \<and> errors (s'' ! a) = e)))
       \<and> (\<not> initialized (s' ! a) \<and> validationSub (s' ! a) = Some (k, slots)
            \<and> list_all (\<lambda>x. x \<noteq> None) slots
            \<and> chain_ends (length s') (s'[a := (s' ! a)\<lparr>initialized := True\<rparr>]) a \<longrightarrow>
           (\<exists>s''. run a (evs @ [Ready]) (s @ [fresh_control sh v vs]) = Some s''
              \<and> initialized (s'' ! a) \<and> validationSub (s'' ! a) = None
              \<and> invocations (s'' ! a) = Suc k
              \<and> published (s'' ! a) = [(k, combineErrors (map the slots))]
              \<and> errors (s'' ! a) = combineErrors (map the slots)))
       \<and> (initialized (s' ! a) \<and> validationSub (s' ! a) = Some (k, slots)
            \<and> i < length slots \<and> slots ! i = None
            \<and> list_all (\<lambda>x. x \<noteq> None) (slots[i := Some r])
            \<and> chain_ends (length s') s' a \<longrightarrow>
           (\<exists>s''. run a (evs @ [Deliver k i r]) (s @ [fresh_control sh v vs]) = Some s''
              \<and> validationSub (s'' ! a) = None \<and> invocations (s'' ! a) = Suc k
              \<and> published (s'' ! a) =
                  published (s' ! a) @ [(k, combineErrors (map the (slots[i := Some r])))]
              \<and> errors (s'' ! a) = combineErrors (map the (slots[i := Some r]))))
       \<and> (validationSub (s' ! a) = Some (k, slots) \<and> i < length slots \<and> slots ! i = None
            \<and> \<not> (initialized (s' ! a) \<and> list_all (\<lambda>x. x \<noteq> None) (slots[i := Some r])) \<longrightarrow>
           run a (evs @ [Deliver k i r]) (s @ [fresh_control sh v vs])
             = Some (s'[a := (s' ! a)\<lparr>validationSub := Some (k, slots[i := Some r])\<rparr>]))
       \<and> (Suc j \<noteq> invocations (s' ! a) \<or> j \<in> fst ` set (published (s' ! a)) \<longrightarrow>
           run a (evs @ [Deliver j i r]) (s @ [fresh_control sh v vs]) = Some s')
       \<and> (validationSub (s' ! a) = Some (k, slots) \<and> i < length slots \<and> slots ! i \<noteq> None \<longrightarrow>
           run a (evs @ [Deliver k i r]) (s @ [fresh_control sh v vs]) = Some s')"
proof -
  let ?s0 = "s @ [fresh_control sh v vs]"
  have a0: "a < length ?s0" using assms(1) by simp
  have inv0: "validation_inv (?s0 ! a)"
    using assms(1) by (simp add: validation_inv_def fresh_control_def)
  from run_inv[OF assms(2) a0 inv0] have inv: "validation_inv (s' ! a)"
    and len: "length ?s0 \<le> length s'" by simp_all
  have a': "a < length s'" using len a0 by simp
  note step = run_append[OF assms(2)]
  have prog: "initialized (s' ! a) \<and> chain_ends (length s') s' a
            \<and> list_all (\<lambda>w. w (val (s' ! a)) \<noteq> Deferred) ws \<longrightarrow>
           (\<exists>s''. setValidators s' a ws = Some s''
              \<and> run a (evs @ [SetValidators ws]) ?s0 = Some s''
              \<and> invocations (s'' ! a) = Suc (invocations (s' ! a))
              \<and> validationSub (s'' ! a) = None
              \<and> (\<exists>e. published (s'' ! a) = published (s' ! a) @ [(invocations (s' ! a), e)]
                    \<and> errors (s'' ! a) = e))"
    (is "?H \<longrightarrow> ?C")
  proof
    assume h: ?H
    let ?s1 = "s'[a := (s' ! a)\<lparr>validators := ws\<rparr>]"
    have st: "\<And>x. parent (?s1 ! x) = parent (s' ! x) \<and> initialized (?s1 ! x) = initialized (s' ! x)"
      using a' by (simp add: nth_list_update)
    have ce: "chain_ends (length ?s1) ?s1 a"
      using h chain_ends_cong[of ?s1 s' "length s'" a, OF st] by simp
    have "a < length ?s1" "initialized (?s1 ! a)"
      "list_all (\<lambda>v. v (val (?s1 ! a)) \<noteq> Deferred) (validators (?s1 ! a))"
      using a' h by simp_all
    from validate_publishes_once[OF this(1,2) ce this(3)] a' show ?C
      by (simp add: step setValidators_def)
  qed
  have ready: "\<not> initialized (s' ! a) \<and> validationSub (s' ! a) = Some (k, slots)
            \<and> list_all (\<lambda>x. x \<noteq> None) slots
            \<and> chain_ends (length s') (s'[a := (s' ! a)\<lparr>initialized := True\<rparr>]) a \<longrightarrow>
           (\<exists>s''. run a (evs @ [Ready]) ?s0 = Some s''
              \<and> initialized (s'' ! a) \<and> validationSub (s'' ! a) = None
              \<and> invocations (s'' ! a) = Suc k
              \<and> published (s'' ! a) = [(k, combineErrors (map the slots))]
              \<and> errors (s'' ! a) = combineErrors (map the slots))"
    (is "?H \<longrightarrow> ?C")
  proof
    assume h: ?H
    let ?s1 = "s'[a := (s' ! a)\<lparr>initialized := True\<rparr>]"
    have none: "published (s' ! a) = []" and k: "invocations (s' ! a) = Suc k"
      using inv h by (simp_all add: validation_inv_def)
    have "a < length ?s1" "initialized (?s1 ! a)" "validationSub (?s1 ! a) = Some (k, slots)"
      "list_all (\<lambda>x. x \<noteq> None) slots" "chain_ends (length ?s1) ?s1 a"
      using a' h by simp_all
    from fire_publishes[OF this] a' none k show ?C
      by (simp add: step fieldReady_def)
  qed
  have last: "initialized (s' ! a) \<and> validationSub (s' ! a) = Some (k, slots)
            \<and> i < length slots \<and> slots ! i = None
            \<and> list_all (\<lambda>x. x \<noteq> None) (slots[i := Some r])
            \<and> chain_ends (length s') s' a \<longrightarrow>
           (\<exists>s''. run a (evs @ [Deliver k i r]) ?s0 = Some s''
              \<and> validationSub (s'' ! a) = None \<and> invocations (s'' ! a) = Suc k
              \<and> published (s'' ! a) =
                  published (s' ! a) @ [(k, combineErrors (map the (slots[i := Some r])))]
              \<and> errors (s'' ! a) = combineErrors (map the (slots[i := Some r])))"
    (is "?H \<longrightarrow> ?C")
  proof
    assume h: ?H
    let ?s1 = "s'[a := (s' ! a)\<lparr>validationSub := Some (k, slots[i := Some r])\<rparr>]"
    have k: "invocations (s' ! a) = Suc k"
      using inv h by (simp add: validation_inv_def)
    have st: "\<And>x. parent (?s1 ! x) = parent (s' ! x) \<and> initialized (?s1 ! x) = initialized (s' ! x)"
      using a' by (simp add: nth_list_update)
    have ce: "chain_ends (length ?s1) ?s1 a"
      using h chain_ends_cong[of ?s1 s' "length s'" a, OF st] by simp
    have d: "deliver s' a k i r = validation_fire ?s1 a"
      using h by (simp add: deliver_def)
    have "a < length ?s1" "initialized (?s1 ! a)"
      "validationSub (?s1 ! a) = Some (k, slots[i := Some r])"
      "list_all (\<lambda>x. x \<noteq> None) (slots[i := Some r])"
      using a' h by simp_all
    from fire_publishes[OF this ce] a' k show ?C
      by (auto simp: step d)
  qed
  have wait: "validationSub (s' ! a) = Some (k, slots) \<and> i < length slots \<and> slots ! i = None
            \<and> \<not> (initialized (s' ! a) \<and> list_all (\<lambda>x. x \<noteq> None) (slots[i := Some r])) \<longrightarrow>
           run a (evs @ [Deliver k i r]) ?s0
             = Some (s'[a := (s' ! a)\<lparr>validationSub := Some (k, slots[i := Some r])\<rparr>])"
    using a' by (auto simp: step deliver_def validation_fire_def)
  have dropped: "Suc j \<noteq> invocations (s' ! a) \<or> j \<in> fst ` set (published (s' ! a)) \<longrightarrow>
           run a (evs @ [Deliver j i r]) ?s0 = Some s'"
  proof (cases "validationSub (s' ! a)")
    case None
    then show ?thesis by (simp add: step deliver_def)
  next
    case (Some ks)
    obtain k' sl where ks: "ks = (k', sl)" by (cases ks)
    from inv Some ks have "Suc k' = invocations (s' ! a)" "k' \<notin> fst ` set (published (s' ! a))"
      by (auto simp: validation_inv_def list_all_iff)
    then have "Suc j \<noteq> invocations (s' ! a) \<or> j \<in> fst ` set (published (s' ! a)) \<longrightarrow> k' \<noteq> j"
      by auto
    with Some ks show ?thesis by (auto simp: step deliver_def)
  qed
  have again: "validationSub (s' ! a) = Some (k, slots) \<and> i < length slots \<and> slots ! i \<noteq> None \<longrightarrow>
           run a (evs @ [Deliver k i r]) ?s0 = Some s'"
    by (auto simp: step deliver_def)
  have safe: "(if initialized (s' ! a) then True else published (s' ! a) = [] \<and> errors (s' ! a) = None)
       \<and> errors (s' ! a) =
           (if published (s' ! a) = [] then None else snd (last (published (s' ! a))))
       \<and> distinct (map fst (published (s' ! a)))
       \<and> list_all (\<lambda>p. fst p < invocations (s' ! a)) (published (s' ! a))
       \<and> (case validationSub (s' ! a) of
             None \<Rightarrow> True
           | Some sub \<Rightarrow>
               Suc (fst sub) = invocations (s' ! a)
               \<and> list_all (\<lambda>p. fst p \<noteq> fst sub) (published (s' ! a)))"
    using inv unfolding validation_inv_def by (simp split: if_splits)
  from safe prog ready last wait dropped again show ?thesis
    by (elim conjE, intro conjI)
qed


text \<open>
  The field with the required validator: the constructor publishes the error of the
  empty value, the second invocation publishes null for \<open>x\<close>, and a third one would
  publish once more. A control with the deferred validator and the gate closed: the
  result that arrives is stored, a second value of the source is dropped, and the opening
  of the gate publishes the stored result. The field with the deferred validator inside
  a group, in its second invocation: the late result of the first invocation is dropped,
  and the result of the second is published.
\<close>

theorem validation_publishes_at_most_once_witness:
  "run 0 [Validate, Ready, SetValue (VStr ''x''), SetValidators [required]]
      ([] @ [fresh_control Leaf (VStr []) [required]]) = Some ex_revalidated
   \<and> published (ex_revalidated ! 0) = [(0, Some [(''required'', ''Required'')]), (1, None)]
   \<and> errors (ex_revalidated ! 0) = None
   \<and> invocations (ex_revalidated ! 0) = 2
   \<and> initialized (ex_revalidated ! 0)
   \<and> chain_ends (length ex_revalidated) ex_revalidated 0
   \<and> list_all (\<lambda>w. w (val (ex_revalidated ! 0)) \<noteq> Deferred) [required]
   \<and> (\<exists>s''. setValidators ex_revalidated 0 [required] = Some s''
         \<and> run 0 ([Validate, Ready, SetValue (VStr ''x''), SetValidators [required]]
                    @ [SetValidators [required]])
              ([] @ [fresh_control Leaf (VStr []) [required]]) = Some s''
         \<and> invocations (s'' ! 0) = 3
         \<and> validationSub (s'' ! 0) = None
         \<and> published (s'' ! 0) =
             [(0, Some [(''required'', ''Required'')]), (1, None), (2, None)])
   \<and> run 0 [Validate] ([] @ [fresh_control Leaf (VStr []) [ex_async]]) = Some ex_unready
   \<and> \<not> initialized (ex_unready ! 0) \<and> validationSub (ex_unready ! 0) = Some (0, [None])
   \<and> run 0 ([Validate] @ [Deliver 0 0 (Some [(''taken'', ''Taken'')])])
        ([] @ [fresh_control Leaf (VStr []) [ex_async]]) = Some ex_early
   \<and> \<not> initialized (ex_early ! 0) \<and> published (ex_early ! 0) = []
   \<and> validationSub (ex_early ! 0) = Some (0, [Some (Some [(''taken'', ''Taken'')])])
   \<and> chain_ends (length ex_early) (ex_early[0 := (ex_early ! 0)\<lparr>initialized := True\<rparr>]) 0
   \<and> run 0 ([Validate, Deliver 0 0 (Some [(''taken'', ''Taken'')])] @ [Deliver 0 0 None])
        ([] @ [fresh_control Leaf (VStr []) [ex_async]]) = Some ex_early
   \<and> run 0 ([Validate, Deliver 0 0 (Some [(''taken'', ''Taken'')])] @ [Ready])
        ([] @ [fresh_control Leaf (VStr []) [ex_async]]) = Some ex_opened
   \<and> published (ex_opened ! 0) = [(0, Some [(''taken'', ''Taken'')])]
   \<and> errors (ex_opened ! 0) = Some [(''taken'', ''Taken'')]
   \<and> run 0 [Validate, Ready, NewGroup [(''name'', 0)] [] False, SetValidators [ex_async]]
        ([] @ [fresh_control Leaf (VStr []) [ex_async]]) = Some ex_in_group
   \<and> parent (ex_in_group ! 0) = Some 1 \<and> initialized (ex_in_group ! 0)
   \<and> chain_ends (length ex_in_group) ex_in_group 0
   \<and> validationSub (ex_in_group ! 0) = Some (1, [None]) \<and> invocations (ex_in_group ! 0) = 2
   \<and> run 0 ([Validate, Ready, NewGroup [(''name'', 0)] [] False, SetValidators [ex_async]]
               @ [Deliver 0 0 (Some [(''late'', ''Late'')])])
        ([] @ [fresh_control Leaf (VStr []) [ex_async]]) = Some ex_in_group
   \<and> run 0 ([Validate, Ready, NewGroup [(''name'', 0)] [] False, SetValidators [ex_async]]
               @ [Deliver 1 0 (Some [(''taken'', ''Taken'')])])
        ([] @ [fresh_control Leaf (VStr []) [ex_async]]) = Some ex_answered
   \<and> published (ex_answered ! 0) = [(1, Some [(''taken'', ''Taken'')])]
   \<and> errors (ex_answered ! 0) = Some [(''taken'', ''Taken'')]
   \<and> validationSub (ex_answered ! 0) = None"
proof -
  have a0: "(0::nat) = length ([]::store)" by simp
  have r: "run 0 [Validate, Ready, SetValue (VStr ''x''), SetValidators [required]]
      ([] @ [fresh_control Leaf (VStr []) [required]]) = Some ex_revalidated"
    by (simp add: ex_revalidated_def eval_defs ex_defs)
  have v: "published (ex_revalidated ! 0) = [(0, Some [(''required'', ''Required'')]), (1, None)]"
    "errors (ex_revalidated ! 0) = None" "invocations (ex_revalidated ! 0) = 2"
    "initialized (ex_revalidated ! 0)" "chain_ends (length ex_revalidated) ex_revalidated 0"
    "list_all (\<lambda>w. w (val (ex_revalidated ! 0)) \<noteq> Deferred) [required]"
    by (simp_all add: ex_revalidated_def eval_defs ex_defs)
  have e: "\<And>s'' e. setValidators ex_revalidated 0 [required] = Some s'' \<Longrightarrow>
      errors (s'' ! 0) = e \<Longrightarrow> e = None"
    by (auto simp: ex_revalidated_def eval_defs ex_defs)
  note at_r = validation_publishes_at_most_once[OF a0 r, where ws = "[required]"]
  from at_r[THEN conjunct2, THEN conjunct2, THEN conjunct2, THEN conjunct2, THEN conjunct2,
      THEN conjunct1] v e
  have first: "\<exists>s''. setValidators ex_revalidated 0 [required] = Some s''
         \<and> run 0 ([Validate, Ready, SetValue (VStr ''x''), SetValidators [required]]
                    @ [SetValidators [required]])
              ([] @ [fresh_control Leaf (VStr []) [required]]) = Some s''
         \<and> invocations (s'' ! 0) = 3
         \<and> validationSub (s'' ! 0) = None
         \<and> published (s'' ! 0) =
             [(0, Some [(''required'', ''Required'')]), (1, None), (2, None)]"
    by (auto simp: numeral_3_eq_3)
  have r1: "run 0 [Validate] ([] @ [fresh_control Leaf (VStr []) [ex_async]]) = Some ex_unready"
    by (simp add: ex_unready_def eval_defs ex_defs)
  have v1: "\<not> initialized (ex_unready ! 0)" "validationSub (ex_unready ! 0) = Some (0, [None])"
    by (simp_all add: ex_unready_def eval_defs ex_defs)
  have u1: "ex_unready[0 := (ex_unready ! 0)
      \<lparr>validationSub := Some (0, [None][0 := Some (Some [(''taken'', ''Taken'')])])\<rparr>] = ex_early"
    by (simp add: ex_early_def ex_unready_def eval_defs ex_defs)
  note at_1 = validation_publishes_at_most_once[OF a0 r1, where k = 0 and slots = "[None]"
      and i = 0 and r = "Some [(''taken'', ''Taken'')]"]
  from at_1[THEN conjunct2, THEN conjunct2, THEN conjunct2, THEN conjunct2, THEN conjunct2,
      THEN conjunct2, THEN conjunct2, THEN conjunct2, THEN conjunct1] v1
  have r2: "run 0 ([Validate] @ [Deliver 0 0 (Some [(''taken'', ''Taken'')])])
        ([] @ [fresh_control Leaf (VStr []) [ex_async]]) = Some ex_early"
    unfolding u1 by simp
  have v2: "\<not> initialized (ex_early ! 0)" "published (ex_early ! 0) = []"
    "validationSub (ex_early ! 0) = Some (0, [Some (Some [(''taken'', ''Taken'')])])"
    "chain_ends (length ex_early) (ex_early[0 := (ex_early ! 0)\<lparr>initialized := True\<rparr>]) 0"
    by (simp_all add: ex_early_def ex_unready_def eval_defs ex_defs)
  have o2: "run 0 ([Validate, Deliver 0 0 (Some [(''taken'', ''Taken'')])] @ [Ready])
        ([] @ [fresh_control Leaf (VStr []) [ex_async]]) = Some ex_opened"
    by (simp add: ex_opened_def ex_early_def ex_unready_def eval_defs ex_defs)
  have r2': "run 0 [Validate, Deliver 0 0 (Some [(''taken'', ''Taken'')])]
        ([] @ [fresh_control Leaf (VStr []) [ex_async]]) = Some ex_early"
    using r2 by simp
  note at_2 = validation_publishes_at_most_once[OF a0 r2', where k = 0
      and slots = "[Some (Some [(''taken'', ''Taken'')])]" and i = 0 and r = None]
  from at_2[THEN conjunct2, THEN conjunct2, THEN conjunct2, THEN conjunct2, THEN conjunct2,
      THEN conjunct2, THEN conjunct2, THEN conjunct2, THEN conjunct2, THEN conjunct2] v2
  have again: "run 0 ([Validate, Deliver 0 0 (Some [(''taken'', ''Taken'')])] @ [Deliver 0 0 None])
        ([] @ [fresh_control Leaf (VStr []) [ex_async]]) = Some ex_early"
    by simp
  from at_2[THEN conjunct2, THEN conjunct2, THEN conjunct2, THEN conjunct2, THEN conjunct2,
      THEN conjunct2, THEN conjunct1] v2 o2
  have opened: "published (ex_opened ! 0) = [(0, Some [(''taken'', ''Taken'')])]
      \<and> errors (ex_opened ! 0) = Some [(''taken'', ''Taken'')]"
    by (simp add: combineErrors_def spread_def)
  have r3: "run 0 [Validate, Ready, NewGroup [(''name'', 0)] [] False, SetValidators [ex_async]]
        ([] @ [fresh_control Leaf (VStr []) [ex_async]]) = Some ex_in_group"
    by (simp add: ex_in_group_def eval_defs ex_defs)
  have v3: "parent (ex_in_group ! 0) = Some 1" "initialized (ex_in_group ! 0)"
    "chain_ends (length ex_in_group) ex_in_group 0"
    "validationSub (ex_in_group ! 0) = Some (1, [None])" "invocations (ex_in_group ! 0) = 2"
    by (simp_all add: ex_in_group_def eval_defs ex_defs)
  have o3: "run 0 ([Validate, Ready, NewGroup [(''name'', 0)] [] False, SetValidators [ex_async]]
               @ [Deliver 1 0 (Some [(''taken'', ''Taken'')])])
        ([] @ [fresh_control Leaf (VStr []) [ex_async]]) = Some ex_answered"
    by (simp add: ex_answered_def ex_in_group_def eval_defs ex_defs)
  have p3: "published (ex_in_group ! 0) = []"
    by (simp add: ex_in_group_def eval_defs ex_defs)
  note at_3 = validation_publishes_at_most_once[OF a0 r3, where k = 1 and slots = "[None]"
      and i = 0 and r = "Some [(''taken'', ''Taken'')]" and j = 0]
  from at_3[THEN conjunct2, THEN conjunct2, THEN conjunct2, THEN conjunct2, THEN conjunct2,
      THEN conjunct2, THEN conjunct2, THEN conjunct1] v3 o3 p3
  have answered: "published (ex_answered ! 0) = [(1, Some [(''taken'', ''Taken'')])]
      \<and> errors (ex_answered ! 0) = Some [(''taken'', ''Taken'')]
      \<and> validationSub (ex_answered ! 0) = None"
    by (simp add: combineErrors_def spread_def)
  note at_4 = validation_publishes_at_most_once[OF a0 r3, where j = 0 and i = 0
      and r = "Some [(''late'', ''Late'')]"]
  from at_4[THEN conjunct2, THEN conjunct2, THEN conjunct2, THEN conjunct2, THEN conjunct2,
      THEN conjunct2, THEN conjunct2, THEN conjunct2, THEN conjunct2, THEN conjunct1] v3
  have late: "run 0 ([Validate, Ready, NewGroup [(''name'', 0)] [] False, SetValidators [ex_async]]
               @ [Deliver 0 0 (Some [(''late'', ''Late'')])])
        ([] @ [fresh_control Leaf (VStr []) [ex_async]]) = Some ex_in_group"
    by simp
  from r v first r1 v1 r2 v2 again o2 opened r3 v3 late o3 answered show ?thesis
    by (elim conjE, intro conjI)
qed

text \<open>
  C6 as stated fails where it has every invocation publish exactly one result. The field
  with the deferred validator has, after its construction, one invocation and no
  publication. After \<^verbatim>\<open>setValidators\<close> and the arrival of both results there are two
  invocations and one publication, that of the second: the first invocation was
  unsubscribed before its source answered, and its result is dropped.
\<close>

theorem validation_superseded_counterexample:
  "invocations (ex_pending ! 0) = 1 \<and> published (ex_pending ! 0) = []
   \<and> initialized (ex_pending ! 0)
   \<and> invocations (ex_superseded ! 0) = 2 \<and> published (ex_superseded ! 0) = [(1, None)]
   \<and> validationSub (ex_superseded ! 0) = None"
  by (simp add: ex_superseded_def ex_pending_def eval_defs ex_defs)

section \<open>What the code does where the claims fail\<close>

text \<open>
  C1. A field whose required validator returns an error map ends, once the gate is open,
  with that map in \<open>errors\<close> and with \<open>status.valid\<close> true; a field without validators
  ends with \<open>errors\<close> null and \<open>status.valid\<close> false: the callback stores
  \<^verbatim>\<open>valid: !!errors\<close>.
\<close>

theorem validate_valid_inverted:
  "errors (ex_required_empty ! 0) = Some [(''required'', ''Required'')]
   \<and> valid (status (ex_required_empty ! 0)) = True
   \<and> initialized (ex_required_empty ! 0)
   \<and> errors (ex_plain ! 0) = None
   \<and> valid (status (ex_plain ! 0)) = False
   \<and> initialized (ex_plain ! 0)"
  by (simp add: ex_required_empty_def ex_plain_def eval_defs)

text \<open>
  C3. The array holds the values \<open>A\<close> and \<open>B\<close>. \<^verbatim>\<open>resize(1)\<close> leaves one item, and that item
  is built from the seed null, not from \<open>A\<close>: \<^verbatim>\<open>clear()\<close> ends with an update, which sets
  the value of the array to \<open>[]\<close> before the seeds are read. So \<^verbatim>\<open>reset()\<close> of the array
  gives two items built from null.
\<close>

theorem resize_seeds_survivors_from_null:
  "val (ex_array_AB ! 0) = VArr [VObj [(''name'', VStr ''A'')], VObj [(''name'', VStr ''B'')]]
   \<and> array_controls (ex_resized ! 0) = [6]
   \<and> val (ex_resized ! 6) = VObj [(''name'', VNull)]
   \<and> initialValue (ex_resized ! 6) = VObj [(''name'', VNull)]
   \<and> array_controls (ex_reset ! 0) = [6, 8]
   \<and> val (ex_reset ! 0) = VArr [VObj [(''name'', VNull)], VObj [(''name'', VNull)]]"
  by (simp add: ex_resized_def ex_reset_def ex_array_AB_def eval_defs ex_defs
      numeral_2_eq_2 numeral_3_eq_3)

text \<open>
  C4. The raw value of the root group has, for the child group \<open>g\<close>, the value of \<open>g\<close>,
  which leaves the disabled field \<open>x\<close> out: the test \<^verbatim>\<open>control instanceof FieldControl\<close>
  holds for a group, so \<^verbatim>\<open>getRawValue\<close> of the child is never called. The raw value of
  \<open>g\<close> itself has \<open>x\<close>.
\<close>

theorem getRawValue_no_recursion:
  "val (ex_nested ! 0) = VNum 1 \<and> disabled (status (ex_nested ! 0))
   \<and> getRawValueN 2 ex_nested 2 = Some (VObj [(''g'', VObj [])])
   \<and> getRawValueN 2 ex_nested 1 = Some (VObj [(''x'', VNum 1)])"
  by (simp add: ex_nested_def eval_defs ex_defs numeral_2_eq_2)

section \<open>Reset of a field\<close>

text \<open>
  C9. \<^verbatim>\<open>reset()\<close> of a field control (a \<^verbatim>\<open>FieldControl\<close> that is no group and no array)
  whose parent chain has no cycle returns; afterwards the value is the initial value,
  dirty and touched are false, and valid, pending and disabled are what they were.
\<close>

theorem FieldControl_reset_frame:
  assumes "a < length s" and "shape (s ! a) = Leaf" and "chain_ends (length s) s a"
  shows "\<exists>s'. FieldControl_reset s a = Some s'
           \<and> val (s' ! a) = initialValue (s ! a)
           \<and> dirty (status (s' ! a)) = False
           \<and> touched (status (s' ! a)) = False
           \<and> valid (status (s' ! a)) = valid (status (s ! a))
           \<and> pending (status (s' ! a)) = pending (status (s ! a))
           \<and> disabled (status (s' ! a)) = disabled (status (s ! a))"
proof -
  let ?p = "no_status\<lparr>p_dirty := Some False, p_touched := Some False\<rparr>"
  let ?s0 = "s[a := (s ! a)\<lparr>val := initialValue (s ! a)\<rparr>]"
  have a0: "a < length ?s0" using assms(1) by simp
  have st: "\<And>x. parent (?s0 ! x) = parent (s ! x) \<and> initialized (?s0 ! x) = initialized (s ! x)"
    using assms(1) by (simp add: nth_list_update)
  have ce: "chain_ends (length ?s0) ?s0 a"
    using assms(3) chain_ends_cong[of ?s0 s "length s" a, OF st] by simp
  from setStatus_result[OF a0 ce, of ?p] obtain s' where
    run: "setStatus ?s0 a ?p = Some s'" and
    res: "s' ! a = (if initialized (?s0 ! a)
                     then update_self (?s0[a := (?s0 ! a)\<lparr>status := merge_status (status (?s0 ! a)) ?p\<rparr>]) a ! a
                     else (?s0 ! a)\<lparr>status := merge_status (status (?s0 ! a)) ?p\<rparr>)"
    by blast
  let ?s1 = "?s0[a := (?s0 ! a)\<lparr>status := merge_status (status (?s0 ! a)) ?p\<rparr>]"
  have leaf: "update_self ?s1 a = ?s1"
    using assms(1,2) by (intro update_self_leaf) simp_all
  have "s' ! a = (?s0 ! a)\<lparr>status := merge_status (status (?s0 ! a)) ?p\<rparr>"
    using res leaf assms(1) by (simp split: if_splits)
  with run assms(1) show ?thesis
    by (simp add: FieldControl_reset_def merge_status_def no_status_def)
qed

text \<open>The field built with \<open>a\<close> and set to \<open>b\<close> is dirty and touched; its reset gives
  \<open>a\<close> back, clean and untouched.\<close>

theorem FieldControl_reset_frame_witness:
  "0 < length ex_edited_field \<and> shape (ex_edited_field ! 0) = Leaf
   \<and> chain_ends (length ex_edited_field) ex_edited_field 0
   \<and> val (ex_edited_field ! 0) = VStr ''b'' \<and> dirty (status (ex_edited_field ! 0))
   \<and> (\<exists>s'. FieldControl_reset ex_edited_field 0 = Some s'
           \<and> val (s' ! 0) = VStr ''a''
           \<and> dirty (status (s' ! 0)) = False
           \<and> touched (status (s' ! 0)) = False
           \<and> valid (status (s' ! 0)) = False
           \<and> pending (status (s' ! 0)) = False
           \<and> disabled (status (s' ! 0)) = False)"
proof -
  have h: "0 < length ex_edited_field" "shape (ex_edited_field ! 0) = Leaf"
    "chain_ends (length ex_edited_field) ex_edited_field 0"
    by (simp_all add: ex_edited_field_eq)
  from FieldControl_reset_frame[OF h] h show ?thesis
    by (simp add: ex_edited_field_eq)
qed

end
